theory Spec2Isabelle
  imports Main "HOL-Library.Word"
begin

section \<open>Values, metadata and errors\<close>

text \<open>
  Python text is modelled as \<open>string\<close>, a byte sequence as a list of 8-bit words.
  The values carried by records and parameters are left abstract (type \<open>'v\<close>).
  A metadata dictionary has the entry \<open>"fields"\<close> (\<open>md_fields\<close>), which may be absent, and further
  entries that the driver does not inspect.
\<close>

type_synonym bytes = "8 word list"

record 'v metadata =
  md_fields :: "string list option"
  md_entries :: "(string \<times> 'v) list"

text \<open>
  Every exception the modelled code can raise is a value. \<open>CypherError\<close> carries the
  metadata of the FAILURE message, \<open>ValueError\<close> and \<open>AttributeError\<close> the value that
  is formatted into their message (or the message itself, for a ValueError of the
  standard library).
\<close>

datatype 'v error =
    ValueError string
  | TypeError
  | AttributeError string
  | IndexError
  | KeyError string
  | AssertionError
  | UnicodeDecodeError
  | CypherError "'v metadata"
  | TransportError

section \<open>Record\<close>

text \<open>
  \<open>Record.__init__\<close> stores the two arguments as they are.  The key list is the
  \<open>keys\<close> attribute of the owning \<open>Result\<close>, which is \<open>None\<close> until a header has
  been received, hence the option.
\<close>

record 'v Record =
  Record_keys :: "string list option"
  Record_values :: "'v list"

text \<open>\<open>list.index\<close>: the position of the first occurrence; \<open>None\<close> stands for ValueError.\<close>

fun index :: "'a list \<Rightarrow> 'a \<Rightarrow> nat option" where
  "index [] x = None"
| "index (y # ys) x = (if y = x then Some 0 else map_option Suc (index ys x))"

text \<open>
  Subscripting of a list or tuple by an integer: a negative index counts from the
  end; \<open>None\<close> stands for IndexError.
\<close>

definition subscript :: "'a list \<Rightarrow> int \<Rightarrow> 'a option" where
  "subscript xs i =
     (if 0 \<le> i then (if i < int (length xs) then Some (xs ! nat i) else None)
      else if - i \<le> int (length xs) then Some (xs ! nat (int (length xs) + i))
      else None)"

text \<open>The argument of \<open>__getitem__\<close>: a string, an integer, or any other object.\<close>

datatype item = Str string | Num int | Obj

text \<open>
  What the built-in \<open>getattr\<close> can return on a Record: a field value computed by
  \<open>__getattr__\<close>, one of the two instance attributes, or an attribute found on the class.
\<close>

datatype 'v attribute =
    Field 'v
  | Instance_keys "string list option"
  | Instance_values "'v list"
  | Class_attribute string

text \<open>
  \<open>Record.__getattr__\<close>.  When the key list is \<open>None\<close> the call \<open>self.__keys__.index\<close>
  itself raises AttributeError (for the name \<open>index\<close>).
\<close>

definition Record_getattr :: "'v Record \<Rightarrow> string \<Rightarrow> 'v error + 'v" where
  "Record_getattr self item =
     (case Record_keys self of
        None \<Rightarrow> Inl (AttributeError ''index'')
      | Some ks \<Rightarrow>
          (case index ks item of
             None \<Rightarrow> Inl (AttributeError item)
           | Some i \<Rightarrow>
               (case subscript (Record_values self) (int i) of
                  None \<Rightarrow> Inl IndexError
                | Some v \<Rightarrow> Inr v)))"

text \<open>
  The built-in \<open>getattr(self, item)\<close>.  Python consults \<open>__getattr__\<close> only after the
  ordinary lookup has failed: the instance dictionary holds \<open>__keys__\<close> and
  \<open>__values__\<close>, and \<open>cls\<close> lists the names found on the class (the methods of the class
  body and whatever \<open>object\<close> provides in the running interpreter).
\<close>

definition getattr :: "string list \<Rightarrow> 'v Record \<Rightarrow> string \<Rightarrow> 'v error + 'v attribute" where
  "getattr cls self item =
     (if item = ''__keys__'' then Inr (Instance_keys (Record_keys self))
      else if item = ''__values__'' then Inr (Instance_values (Record_values self))
      else if item \<in> set cls then Inr (Class_attribute item)
      else (case Record_getattr self item of
              Inl e \<Rightarrow> Inl e
            | Inr v \<Rightarrow> Inr (Field v)))"

text \<open>\<open>Record.__getitem__\<close>.  Subscripting \<open>None\<close> by an integer raises TypeError.\<close>

definition Record_getitem :: "string list \<Rightarrow> 'v Record \<Rightarrow> item \<Rightarrow> 'v error + 'v attribute" where
  "Record_getitem cls self item =
     (case item of
        Str s \<Rightarrow> getattr cls self s
      | Num i \<Rightarrow>
          (case Record_keys self of
             None \<Rightarrow> Inl TypeError
           | Some ks \<Rightarrow>
               (case subscript ks i of
                  None \<Rightarrow> Inl IndexError
                | Some k \<Rightarrow> getattr cls self k))
      | Obj \<Rightarrow> Inl TypeError)"

section \<open>Driver\<close>

text \<open>
  \<open>urlparse\<close> comes from the standard library through the compat module; it is a
  parameter of the model.  It can raise ValueError itself (\<open>Inl\<close>, with the message).
  Of its result the constructor reads the scheme, the host name and the port; \<open>port\<close>
  is a property that converts the text after the colon on each access and raises
  ValueError when that text is not a port number, as in \<open>bolt://localhost:abc\<close>.
\<close>

record parsed_url =
  scheme :: string
  hostname :: "string option"
  port :: "string + int option"

record 'c Driver =
  url :: string
  host :: "string option"
  driver_port :: "int option"
  config :: 'c

text \<open>
  The network is the list of connection attempts made so far, each with its host and
  port.  Every operation that could reach the network takes it and returns it.
\<close>

type_synonym network = "(string option \<times> int option) list"

text \<open>
  \<open>Driver.__init__\<close>.  The ValueError of the constructor carries the scheme that is
  formatted into its message; a ValueError of \<open>urlparse\<close> or of \<open>parsed.port\<close> passes
  through with its own message.  The host name is read before the port.
\<close>

definition Driver_init ::
  "(string \<Rightarrow> string + parsed_url) \<Rightarrow> string \<Rightarrow> 'c \<Rightarrow> network
     \<Rightarrow> ('v error + 'c Driver) \<times> network" where
  "Driver_init urlparse u cfg net =
     (case urlparse u of
        Inl msg \<Rightarrow> (Inl (ValueError msg), net)
      | Inr parsed \<Rightarrow>
          if scheme parsed = ''bolt''
          then (case port parsed of
                  Inl msg \<Rightarrow> (Inl (ValueError msg), net)
                | Inr p \<Rightarrow>
                    (Inr \<lparr>url = u, host = hostname parsed, driver_port = p, config = cfg\<rparr>, net))
          else (Inl (ValueError (scheme parsed)), net))"

text \<open>\<open>GraphDatabase.driver\<close>.\<close>

definition GraphDatabase_driver ::
  "(string \<Rightarrow> string + parsed_url) \<Rightarrow> string \<Rightarrow> 'c \<Rightarrow> network
     \<Rightarrow> ('v error + 'c Driver) \<times> network" where
  "GraphDatabase_driver urlparse u cfg net = Driver_init urlparse u cfg net"

section \<open>Connection\<close>

text \<open>
  The messages of the protocol.  A request is RUN with a statement and a parameter
  dictionary (its items, in order), or PULL_ALL; a reply is a RECORD or one of the
  three summary messages.
\<close>

datatype 'v request = RUN string "(string \<times> 'v) list" | PULL_ALL

datatype 'v reply =
    SUCCESS "'v metadata"
  | FAILURE "'v metadata"
  | IGNORED
  | RECORD "'v list"

fun summary :: "'v reply \<Rightarrow> bool" where
  "summary (RECORD vs) = False"
| "summary m = True"

text \<open>
  A Response object is identified by the serial number of the \<open>run\<close> call that created
  it and by its role in that call; the role determines its callbacks (see \<open>callback\<close>).
\<close>

datatype role = Run_response | Pull_all_response

type_synonym response = "nat \<times> role"

datatype 'v call = Call_append "'v request" | Call_send | Call_fetch_next | Call_close

text \<open>
  Modelled from the spec: the Connection class (module \<open>connection\<close>) is not part of
  the sources.  A connection has an outgoing buffer, the messages already flushed to the
  link, the responses that await their replies in submission order, and the replies the
  link delivers before it fails.  \<open>calls\<close> records the methods called on the connection, in
  order.
\<close>

record 'v connection =
  outgoing :: "'v request list"
  sent :: "'v request list"
  responses :: "response list"
  incoming :: "'v reply list"
  released :: bool
  calls :: "'v call list"

text \<open>
  Modelled from the spec: \<open>Connection.append\<close> adds one message to the outgoing buffer
  without blocking and queues the response that will receive its replies.
\<close>

definition append :: "'v connection \<Rightarrow> 'v request \<Rightarrow> response \<Rightarrow> 'v connection" where
  "append c q r =
     c\<lparr>outgoing := outgoing c @ [q],
       responses := responses c @ [r],
       calls := calls c @ [Call_append q]\<rparr>"

text \<open>
  Modelled from the spec: \<open>Connection.send\<close> writes all pending messages to the link, in
  the order in which they were appended.
\<close>

definition send :: "'v connection \<Rightarrow> 'v connection" where
  "send c = c\<lparr>sent := sent c @ outgoing c, outgoing := [], calls := calls c @ [Call_send]\<rparr>"

text \<open>
  Modelled from the spec: \<open>Connection.fetch_next\<close> receives one message, or fails with a
  transport error when the link delivers nothing more.  Replies arrive in submission
  order, so the message belongs to the oldest response that is not complete; a summary
  message completes that response.  The result names the response and the message; the
  caller applies the callback.  A reply that no response awaits is an IndexError on the
  empty queue.
\<close>

definition fetch_next :: "'v connection \<Rightarrow> ('v error + response \<times> 'v reply) \<times> 'v connection" where
  "fetch_next c =
     (let c' = c\<lparr>calls := calls c @ [Call_fetch_next]\<rparr> in
      case incoming c of
        [] \<Rightarrow> (Inl TransportError, c')
      | m # ms \<Rightarrow>
          (case responses c of
             [] \<Rightarrow> (Inl IndexError, c'\<lparr>incoming := ms\<rparr>)
           | r # rs \<Rightarrow>
               (Inr (r, m), c'\<lparr>incoming := ms, responses := (if summary m then rs else r # rs)\<rparr>)))"

text \<open>Modelled from the spec: \<open>Connection.close\<close> releases the link.\<close>

definition close :: "'v connection \<Rightarrow> 'v connection" where
  "close c = c\<lparr>released := True, calls := calls c @ [Call_close]\<rparr>"

text \<open>
  Modelled from the spec: \<open>connect\<close> reaches the network and yields a connection on
  which nothing has been sent; \<open>link\<close> is what the server will reply on it.
\<close>

definition connect ::
  "'v reply list \<Rightarrow> string option \<Rightarrow> int option \<Rightarrow> network \<Rightarrow> 'v connection \<times> network" where
  "connect link h p net =
     (\<lparr>outgoing = [], sent = [], responses = [], incoming = link, released = False, calls = []\<rparr>,
      net @ [(h, p)])"

section \<open>Result\<close>

text \<open>
  A Result is a list of Records with the attribute \<open>keys\<close>.  The BenchTest attached to
  it only holds readings of the performance counter, which are not modelled.
\<close>

record 'v Result =
  keys :: "string list option"
  records :: "'v Record list"

definition Result_init :: "'v Result" where
  "Result_init = \<lparr>keys = None, records = []\<rparr>"

text \<open>\<open>Result.on_header\<close>: \<open>metadata["fields"]\<close> raises KeyError when the entry is absent.\<close>

definition on_header :: "'v metadata \<Rightarrow> 'v Result \<Rightarrow> 'v error + 'v Result" where
  "on_header md self =
     (case md_fields md of
        None \<Rightarrow> Inl (KeyError ''fields'')
      | Some ks \<Rightarrow> Inr (self\<lparr>keys := Some ks\<rparr>))"

text \<open>\<open>Result.on_record\<close>; \<open>hydrated\<close> (module \<open>typesystem\<close>) is a parameter.\<close>

definition on_record :: "('v \<Rightarrow> 'v) \<Rightarrow> 'v list \<Rightarrow> 'v Result \<Rightarrow> 'v error + 'v Result" where
  "on_record hydrated vs self =
     Inr (self\<lparr>records := records self @
                 [\<lparr>Record_keys = keys self, Record_values = map hydrated vs\<rparr>]\<rparr>)"

definition on_footer :: "'v metadata \<Rightarrow> 'v Result \<Rightarrow> 'v error + 'v Result" where
  "on_footer md self = Inr self"

definition on_failure :: "'v metadata \<Rightarrow> 'v Result \<Rightarrow> 'v error + 'v Result" where
  "on_failure md self = Inl (CypherError md)"

text \<open>
  The callbacks that \<open>Session.run\<close> installs on its two responses.  The response to RUN
  has \<open>on_success = result.on_header\<close> and \<open>on_failure = result.on_failure\<close>; the response
  to PULL_ALL has \<open>on_record = result.on_record\<close>, \<open>on_success = result.on_footer\<close> and
  \<open>on_failure = result.on_failure\<close>.  A message for which no callback was installed
  changes nothing.
\<close>

fun callback :: "('v \<Rightarrow> 'v) \<Rightarrow> role \<Rightarrow> 'v reply \<Rightarrow> 'v Result \<Rightarrow> 'v error + 'v Result" where
  "callback hydrated Run_response (SUCCESS md) res = on_header md res"
| "callback hydrated Run_response (FAILURE md) res = on_failure md res"
| "callback hydrated Run_response IGNORED res = Inr res"
| "callback hydrated Run_response (RECORD vs) res = Inr res"
| "callback hydrated Pull_all_response (RECORD vs) res = on_record hydrated vs res"
| "callback hydrated Pull_all_response (SUCCESS md) res = on_footer md res"
| "callback hydrated Pull_all_response (FAILURE md) res = on_failure md res"
| "callback hydrated Pull_all_response IGNORED res = Inr res"

section \<open>Session\<close>

text \<open>
  A statement is a byte sequence or text.  \<open>bytes.decode("UTF-8")\<close> and \<open>hydrated\<close>
  are not defined in the sources; the model takes both as parameters.  The decoder
  returns \<open>None\<close> where Python raises UnicodeDecodeError.
\<close>

datatype statement = Bytes bytes | Text string

record 'v builtins =
  utf8_decode :: "bytes \<Rightarrow> string option"
  hydrate :: "'v \<Rightarrow> 'v"

text \<open>
  Transaction objects: \<open>success\<close> and \<open>closed\<close> are False on the class, so a new
  object reads both as False.
\<close>

record Transaction =
  success :: bool
  closed :: bool

definition Transaction_new :: Transaction where
  "Transaction_new = \<lparr>success = False, closed = False\<rparr>"

text \<open>
  The state of a session: its attributes \<open>connection\<close>, \<open>transaction\<close> (a reference to a
  Transaction object, or \<open>None\<close>) and \<open>bench_tests\<close> (one entry per completed run; only
  their number is kept), and with them the Transaction objects created for this session:
  \<open>objects\<close> maps a reference to the object, \<open>created\<close> is the number of references in
  use.  \<open>runs\<close> counts the calls of \<open>run\<close> that reached the connection and gives each call
  the serial number of its Result and Response objects.
\<close>

record 'v Session =
  connection :: "'v connection"
  transaction :: "nat option"
  bench_tests :: nat
  runs :: nat
  objects :: "nat \<Rightarrow> Transaction"
  created :: nat

definition Session_init :: "'v connection \<Rightarrow> 'v Session" where
  "Session_init c =
     \<lparr>connection = c, transaction = None, bench_tests = 0, runs = 0,
      objects = (\<lambda>_. Transaction_new), created = 0\<rparr>"

text \<open>\<open>Driver.session\<close>: the only operation of the driver that reaches the network.\<close>

definition Driver_session :: "'v reply list \<Rightarrow> 'c Driver \<Rightarrow> network \<Rightarrow> 'v Session \<times> network" where
  "Driver_session link self net =
     (case connect link (host self) (driver_port self) net of
        (c, net') \<Rightarrow> (Session_init c, net'))"

lemma fetch_next_shorter:
  "fetch_next c = (Inr x, c') \<Longrightarrow> length (incoming c') < length (incoming c)"
  by (auto simp: fetch_next_def Let_def split: list.splits)

text \<open>
  The loop \<open>while not pull_all_response.complete: fetch_next()\<close> of \<open>Session.run\<close>.
  \<open>rid\<close> is the serial number of the call, \<open>complete\<close> the flag of its PULL_ALL response
  and \<open>res\<close> its Result.  A message for a response of an earlier call runs that call's
  callback: it can raise, but the Result it would change is not the one of this call.
\<close>

function fetch_loop ::
  "'v builtins \<Rightarrow> nat \<Rightarrow> bool \<Rightarrow> 'v Result \<Rightarrow> 'v connection \<Rightarrow> ('v error + 'v Result) \<times> 'v connection" where
  "fetch_loop E rid complete res c =
     (if complete then (Inr res, c)
      else
        (case fetch_next c of
           (Inl e, c') \<Rightarrow> (Inl e, c')
         | (Inr (r, m), c') \<Rightarrow>
             (case callback (hydrate E) (snd r) m res of
                Inl e \<Rightarrow> (Inl e, c')
              | Inr res' \<Rightarrow>
                  fetch_loop E rid (r = (rid, Pull_all_response) \<and> summary m)
                    (if fst r = rid then res' else res) c')))"
  by pat_completeness auto
termination
  by (relation "measure (\<lambda>(E, rid, complete, res, c). length (incoming c))")
     (auto dest: fetch_next_shorter [OF sym])

text \<open>
  The first step of \<open>Session.run\<close>: a byte sequence is decoded, text is taken as it
  is.  \<open>None\<close> stands for the UnicodeDecodeError.
\<close>

definition as_text :: "'v builtins \<Rightarrow> statement \<Rightarrow> string option" where
  "as_text E statement = (case statement of Bytes b \<Rightarrow> utf8_decode E b | Text t \<Rightarrow> Some t)"

text \<open>\<open>dict(parameters or {})\<close>.\<close>

definition as_dict :: "(string \<times> 'v) list option \<Rightarrow> (string \<times> 'v) list" where
  "as_dict parameters = (case parameters of None \<Rightarrow> [] | Some d \<Rightarrow> d)"

text \<open>
  \<open>Session.run\<close>.  An exception leaves the session as it is at that moment, so the
  state is returned with the error as well.
\<close>

definition Session_run ::
  "'v builtins \<Rightarrow> 'v Session \<Rightarrow> statement \<Rightarrow> (string \<times> 'v) list option
     \<Rightarrow> ('v error + 'v Result) \<times> 'v Session" where
  "Session_run E self statement parameters =
     (case as_text E statement of
        None \<Rightarrow> (Inl UnicodeDecodeError, self)
      | Some stmt \<Rightarrow>
          (let params = as_dict parameters;
               rid = runs self;
               c1 = append (connection self) (RUN stmt params) (rid, Run_response);
               c2 = append c1 PULL_ALL (rid, Pull_all_response);
               c3 = send c2
           in case fetch_loop E rid False Result_init c3 of
                (Inl e, c4) \<Rightarrow> (Inl e, self\<lparr>connection := c4, runs := Suc rid\<rparr>)
              | (Inr result, c4) \<Rightarrow>
                  (Inr result,
                   self\<lparr>connection := c4, runs := Suc rid,
                        bench_tests := Suc (bench_tests self)\<rparr>)))"

text \<open>\<open>Session.close\<close> and \<open>Session.__exit__\<close>.\<close>

definition Session_close :: "'v Session \<Rightarrow> 'v Session" where
  "Session_close self = self\<lparr>connection := close (connection self)\<rparr>"

definition Session_exit :: "'v Session \<Rightarrow> 'v Session" where
  "Session_exit self = Session_close self"

section \<open>Transaction\<close>

text \<open>
  \<open>Transaction.__init__\<close>, as the expression \<open>Transaction(session)\<close>: the reference to the
  new object exists for the caller only when BEGIN has run without raising.
\<close>

definition Transaction_init :: "'v builtins \<Rightarrow> 'v Session \<Rightarrow> ('v error + nat) \<times> 'v Session" where
  "Transaction_init E session =
     (case Session_run E session (Text ''BEGIN'') None of
        (Inl e, s) \<Rightarrow> (Inl e, s)
      | (Inr _, s) \<Rightarrow>
          (Inr (created s),
           s\<lparr>objects := (objects s)(created s := Transaction_new), created := Suc (created s)\<rparr>))"

text \<open>\<open>Session.new_transaction\<close>.  A Transaction object is true; \<open>None\<close> is false.\<close>

definition Session_new_transaction :: "'v builtins \<Rightarrow> 'v Session \<Rightarrow> ('v error + nat) \<times> 'v Session" where
  "Session_new_transaction E self =
     (case transaction self of
        Some t \<Rightarrow> (Inl AssertionError, self)
      | None \<Rightarrow>
          (case Transaction_init E self of
             (Inl e, s) \<Rightarrow> (Inl e, s)
           | (Inr t, s) \<Rightarrow> (Inr t, s\<lparr>transaction := Some t\<rparr>)))"

text \<open>\<open>Transaction.run\<close>.\<close>

definition Transaction_run ::
  "'v builtins \<Rightarrow> nat \<Rightarrow> 'v Session \<Rightarrow> statement \<Rightarrow> (string \<times> 'v) list option
     \<Rightarrow> ('v error + 'v Result) \<times> 'v Session" where
  "Transaction_run E self s statement parameters =
     (if closed (objects s self) then (Inl AssertionError, s)
      else Session_run E s statement parameters)"

text \<open>\<open>Transaction.close\<close>.\<close>

definition Transaction_close :: "'v builtins \<Rightarrow> nat \<Rightarrow> 'v Session \<Rightarrow> ('v error + unit) \<times> 'v Session" where
  "Transaction_close E self s =
     (if closed (objects s self) then (Inl AssertionError, s)
      else
        (case Session_run E s (Text (if success (objects s self) then ''COMMIT'' else ''ROLLBACK'')) None of
           (Inl e, s') \<Rightarrow> (Inl e, s')
         | (Inr _, s') \<Rightarrow>
             (Inr (),
              s'\<lparr>objects := (objects s')(self := (objects s' self)\<lparr>closed := True\<rparr>),
                 transaction := None\<rparr>)))"

text \<open>Assignment to the attribute \<open>success\<close>.\<close>

definition set_success :: "nat \<Rightarrow> bool \<Rightarrow> 'v Session \<Rightarrow> 'v Session" where
  "set_success self b s = s\<lparr>objects := (objects s)(self := (objects s self)\<lparr>success := b\<rparr>)\<rparr>"

text \<open>\<open>Transaction.commit\<close>, \<open>Transaction.rollback\<close> and \<open>Transaction.__exit__\<close>.\<close>

definition Transaction_commit :: "'v builtins \<Rightarrow> nat \<Rightarrow> 'v Session \<Rightarrow> ('v error + unit) \<times> 'v Session" where
  "Transaction_commit E self s = Transaction_close E self (set_success self True s)"

definition Transaction_rollback :: "'v builtins \<Rightarrow> nat \<Rightarrow> 'v Session \<Rightarrow> ('v error + unit) \<times> 'v Session" where
  "Transaction_rollback E self s = Transaction_close E self (set_success self False s)"

definition Transaction_exit :: "'v builtins \<Rightarrow> nat \<Rightarrow> 'v Session \<Rightarrow> ('v error + unit) \<times> 'v Session" where
  "Transaction_exit E self s = Transaction_close E self s"

section \<open>Use of a session\<close>

text \<open>
  What a caller can do with a session and the transactions it has obtained from it: the
  methods of the two classes, assignment to \<open>success\<close>, and raising an exception of its
  own.  \<open>perform\<close> gives the outcome (an exception or a normal return, whose value is
  dropped) and the state after it.
\<close>

datatype 'v operation =
    Op_run statement "(string \<times> 'v) list option"
  | Op_new_transaction
  | Op_session_close
  | Op_tx_run nat statement "(string \<times> 'v) list option"
  | Op_set_success nat bool
  | Op_commit nat
  | Op_rollback nat
  | Op_close nat
  | Op_raise "'v error"

definition returned :: "('e + 'a) \<times> 's \<Rightarrow> ('e + unit) \<times> 's" where
  "returned x = (case x of (Inl e, s) \<Rightarrow> (Inl e, s) | (Inr v, s) \<Rightarrow> (Inr (), s))"

fun perform :: "'v builtins \<Rightarrow> 'v operation \<Rightarrow> 'v Session \<Rightarrow> ('v error + unit) \<times> 'v Session" where
  "perform E (Op_run st ps) s = returned (Session_run E s st ps)"
| "perform E Op_new_transaction s = returned (Session_new_transaction E s)"
| "perform E Op_session_close s = (Inr (), Session_close s)"
| "perform E (Op_tx_run t st ps) s = returned (Transaction_run E t s st ps)"
| "perform E (Op_set_success t b) s = (Inr (), set_success t b s)"
| "perform E (Op_commit t) s = Transaction_commit E t s"
| "perform E (Op_rollback t) s = Transaction_rollback E t s"
| "perform E (Op_close t) s = Transaction_close E t s"
| "perform E (Op_raise e) s = (Inl e, s)"

text \<open>An operation on a transaction needs a reference that \<open>new_transaction\<close> has returned.\<close>

fun allocated :: "'v Session \<Rightarrow> 'v operation \<Rightarrow> bool" where
  "allocated s (Op_tx_run t st ps) = (t < created s)"
| "allocated s (Op_set_success t b) = (t < created s)"
| "allocated s (Op_commit t) = (t < created s)"
| "allocated s (Op_rollback t) = (t < created s)"
| "allocated s (Op_close t) = (t < created s)"
| "allocated s op = True"

text \<open>
  At most one open transaction: every Transaction object of the session that is not
  closed is the one in the session's slot, and the slot holds nothing but an open
  transaction.
\<close>

definition one_open :: "'v Session \<Rightarrow> bool" where
  "one_open s =
     ((\<forall>r < created s. closed (objects s r) \<or> transaction s = Some r)
      \<and> (case transaction s of
           None \<Rightarrow> True
         | Some t \<Rightarrow> t < created s \<and> \<not> closed (objects s t)))"

section \<open>A transaction as a scoped resource\<close>

text \<open>
  The block of a \<open>with\<close> statement is a sequence of operations; it ends normally when
  all of them have returned (an early return is a shorter sequence) and with the
  exception of the first operation that raises.
\<close>

fun body :: "'v builtins \<Rightarrow> 'v operation list \<Rightarrow> 'v Session \<Rightarrow> ('v error + unit) \<times> 'v Session" where
  "body E [] s = (Inr (), s)"
| "body E (op # ops) s =
     (case perform E op s of
        (Inl e, s') \<Rightarrow> (Inl e, s')
      | (Inr u, s') \<Rightarrow> body E ops s')"

text \<open>
  \<open>with tx: ...\<close> for the transaction \<open>t\<close>: \<open>__enter__\<close> returns the transaction itself;
  \<open>__exit__\<close> is called however the block has ended.  An exception of \<open>__exit__\<close>
  propagates; otherwise \<open>__exit__\<close> returns \<open>None\<close>, so an exception of the block
  propagates.
\<close>

definition with_transaction ::
  "'v builtins \<Rightarrow> nat \<Rightarrow> 'v operation list \<Rightarrow> 'v Session \<Rightarrow> ('v error + unit) \<times> 'v Session" where
  "with_transaction E t ops s =
     (case body E ops s of
        (r, s1) \<Rightarrow>
          (case Transaction_exit E t s1 of
             (Inl e, s2) \<Rightarrow> (Inl e, s2)
           | (Inr u, s2) \<Rightarrow> (r, s2)))"

text \<open>
  The messages flushed to the link between two states of a session, and the test
  whether a message is the COMMIT or the ROLLBACK statement.
\<close>

definition sent_during :: "'v Session \<Rightarrow> 'v Session \<Rightarrow> 'v request list" where
  "sent_during s s' = drop (length (sent (connection s))) (sent (connection s'))"

fun closing :: "'v request \<Rightarrow> bool" where
  "closing (RUN st ps) = (st = ''COMMIT'' \<or> st = ''ROLLBACK'')"
| "closing PULL_ALL = False"

text \<open>
  Operations of a block on its transaction \<open>t\<close>: \<open>closes\<close> holds for the three methods
  that end the transaction, \<open>requests_commit\<close> for the two ways to ask for a commit.
  \<open>scoped\<close> admits the operations on \<open>t\<close> and on the session that do not themselves run
  the text COMMIT or ROLLBACK as a statement and do not open another transaction.
\<close>

fun closes :: "nat \<Rightarrow> 'v operation \<Rightarrow> bool" where
  "closes t (Op_commit t') = (t' = t)"
| "closes t (Op_rollback t') = (t' = t)"
| "closes t (Op_close t') = (t' = t)"
| "closes t op = False"

fun requests_commit :: "'v operation \<Rightarrow> bool" where
  "requests_commit (Op_commit t) = True"
| "requests_commit (Op_set_success t b) = b"
| "requests_commit op = False"

definition plain_statement :: "'v builtins \<Rightarrow> statement \<Rightarrow> bool" where
  "plain_statement E st =
     (case as_text E st of None \<Rightarrow> True | Some x \<Rightarrow> x \<noteq> ''COMMIT'' \<and> x \<noteq> ''ROLLBACK'')"

fun scoped :: "nat \<Rightarrow> 'v builtins \<Rightarrow> 'v operation \<Rightarrow> bool" where
  "scoped t E (Op_run st ps) = plain_statement E st"
| "scoped t E Op_new_transaction = False"
| "scoped t E Op_session_close = True"
| "scoped t E (Op_tx_run t' st ps) = (t' = t \<and> plain_statement E st)"
| "scoped t E (Op_set_success t' b) = (t' = t)"
| "scoped t E (Op_commit t') = (t' = t)"
| "scoped t E (Op_rollback t') = (t' = t)"
| "scoped t E (Op_close t') = (t' = t)"
| "scoped t E (Op_raise e) = True"

text \<open>
  \<open>interrupted\<close>: the block ends with the exception of a \<open>commit\<close>, \<open>rollback\<close> or \<open>close\<close>
  that was called while the transaction was open.
\<close>

fun interrupted :: "'v builtins \<Rightarrow> nat \<Rightarrow> 'v operation list \<Rightarrow> 'v Session \<Rightarrow> bool" where
  "interrupted E t [] s = False"
| "interrupted E t (op # ops) s =
     (case perform E op s of
        (Inl e, s') \<Rightarrow> closes t op \<and> \<not> closed (objects s t)
      | (Inr u, s') \<Rightarrow> interrupted E t ops s')"

section \<open>Replies consumed by a call\<close>



text \<open>
  The Result after the value lists \<open>vss\<close> have been delivered to \<open>on_record\<close>, one
  after the other, and the outcome that a summary message gives to a call whose Result
  is \<open>res\<close>: FAILURE raises, SUCCESS and IGNORED let the call return \<open>res\<close>.
\<close>

definition collected :: "('v \<Rightarrow> 'v) \<Rightarrow> 'v Result \<Rightarrow> 'v list list \<Rightarrow> 'v Result" where
  "collected h res vss =
     res\<lparr>records := records res @ map (\<lambda>vs. \<lparr>Record_keys = keys res, Record_values = map h vs\<rparr>) vss\<rparr>"

fun concluded :: "'v reply \<Rightarrow> 'v Result \<Rightarrow> 'v error + 'v Result" where
  "concluded (FAILURE md) res = Inl (CypherError md)"
| "concluded m res = Inr res"

section \<open>Example inputs\<close>

text \<open>
  An instance of the built-ins for the examples.  On bytes below 128 UTF-8 decoding
  yields one character per byte; this instance decodes such input only.  Values are
  integers and hydration leaves them as they are.
\<close>

definition plain :: "int builtins" where
  "plain =
     \<lparr>utf8_decode = (\<lambda>b. if list_all (\<lambda>w. w < 128) b
                            then Some (map (\<lambda>w. char_of (unat w)) b) else None),
      hydrate = (\<lambda>v. v)\<rparr>"

definition header :: "int metadata" where
  "header = \<lparr>md_fields = Some [''x''], md_entries = []\<rparr>"

definition footer :: "int metadata" where
  "footer = \<lparr>md_fields = None, md_entries = []\<rparr>"

definition failure :: "int metadata" where
  "failure = \<lparr>md_fields = None, md_entries = [(''code'', 42)]\<rparr>"


text \<open>A session on a new connection to localhost whose server will send \<open>link\<close>.\<close>

definition fresh :: "int reply list \<Rightarrow> int Session" where
  "fresh link = Session_init (fst (connect link (Some ''localhost'') (Some 7687) []))"

text \<open>
  The session after \<open>new_transaction\<close> on a new connection whose server acknowledges
  BEGIN and then sends \<open>rest\<close>.
\<close>

definition begun :: "int reply list \<Rightarrow> int Session" where
  "begun rest = snd (Session_new_transaction plain (fresh (SUCCESS header # SUCCESS footer # rest)))"

section \<open>Properties of Record\<close>

lemma index_first:
  "i < length ks \<Longrightarrow> ks ! i \<notin> set (take i ks) \<Longrightarrow> index ks (ks ! i) = Some i"
proof (induction ks arbitrary: i)
  case Nil
  then show ?case by simp
next
  case (Cons k ks)
  show ?case
  proof (cases i)
    case 0
    then show ?thesis by simp
  next
    case (Suc j)
    with Cons.prems have "j < length ks" "ks ! j \<noteq> k" "ks ! j \<notin> set (take j ks)"
      by auto
    with Cons.IH [of j] Suc show ?thesis by auto
  qed
qed

lemma subscript_nat:
  "i < length xs \<Longrightarrow> subscript xs (int i) = Some (xs ! i)"
  by (simp add: subscript_def)

lemma Record_getattr_first:
  assumes "i < length ks" "ks ! i \<notin> set (take i ks)" "length vs = length ks"
  shows "Record_getattr \<lparr>Record_keys = Some ks, Record_values = vs\<rparr> (ks ! i) = Inr (vs ! i)"
  using assms by (simp add: Record_getattr_def index_first subscript_nat)

text \<open>
  C1, as stated: for every Record built from a key list and a value tuple of equal
  length and every position i in range, the three lookups return the value stored at
  position i.  Two records for which they do not: with keys \<open>["a", "a"]\<close> and values
  \<open>(1, 2)\<close>, \<open>record[1]\<close> looks the name \<open>"a"\<close> up, finds it at position 0 and returns 1;
  with the single key \<open>"__keys__"\<close> and the value 1, \<open>record[0]\<close> is the attribute
  \<open>__keys__\<close> of the object, the key list, since \<open>__getattr__\<close> is never consulted for
  a name that the ordinary lookup finds.
\<close>

theorem Record_getitem_duplicate_key:
  "length [''a'', ''a''] = length [1, 2 :: int]
   \<and> Record_getitem [] \<lparr>Record_keys = Some [''a'', ''a''], Record_values = [1, 2 :: int]\<rparr> (Num 1)
       \<noteq> Inr (Field ([1, 2 :: int] ! 1))
   \<and> length [''__keys__''] = length [1 :: int]
   \<and> Record_getitem [] \<lparr>Record_keys = Some [''__keys__''], Record_values = [1 :: int]\<rparr> (Num 0)
       \<noteq> Inr (Field ([1 :: int] ! 0))"
  by (simp add: Record_getitem_def getattr_def Record_getattr_def subscript_def)

text \<open>
  C1, amended: for every Record built from a key list and a value tuple and every
  position i in range, \<open>record[i]\<close>, \<open>record[keys[i]]\<close> and \<open>record.<keys[i]>\<close> agree (each
  is the attribute lookup of the name \<open>keys[i]\<close>); when the two sequences have equal
  length, \<open>keys[i]\<close> does not occur at an earlier position and is not the name of an
  ordinary attribute of the Record object, all three return the value stored at
  position i.
\<close>

theorem Record_lookup_agrees:
  assumes "i < length ks"
  shows "Record_getitem cls \<lparr>Record_keys = Some ks, Record_values = vs\<rparr> (Num (int i))
           = getattr cls \<lparr>Record_keys = Some ks, Record_values = vs\<rparr> (ks ! i)
       \<and> Record_getitem cls \<lparr>Record_keys = Some ks, Record_values = vs\<rparr> (Str (ks ! i))
           = getattr cls \<lparr>Record_keys = Some ks, Record_values = vs\<rparr> (ks ! i)
       \<and> (length vs = length ks \<and> ks ! i \<notin> set (take i ks)
            \<and> ks ! i \<noteq> ''__keys__'' \<and> ks ! i \<noteq> ''__values__'' \<and> ks ! i \<notin> set cls
          \<longrightarrow> getattr cls \<lparr>Record_keys = Some ks, Record_values = vs\<rparr> (ks ! i)
                = Inr (Field (vs ! i)))"
proof (intro conjI impI)
  have pos: "subscript ks (int i) = Some (ks ! i)"
    using assms by (rule subscript_nat)
  then show "Record_getitem cls \<lparr>Record_keys = Some ks, Record_values = vs\<rparr> (Num (int i))
           = getattr cls \<lparr>Record_keys = Some ks, Record_values = vs\<rparr> (ks ! i)"
    by (simp add: Record_getitem_def)
  show "Record_getitem cls \<lparr>Record_keys = Some ks, Record_values = vs\<rparr> (Str (ks ! i))
           = getattr cls \<lparr>Record_keys = Some ks, Record_values = vs\<rparr> (ks ! i)"
    by (simp add: Record_getitem_def)
next
  assume h: "length vs = length ks \<and> ks ! i \<notin> set (take i ks)
      \<and> ks ! i \<noteq> ''__keys__'' \<and> ks ! i \<noteq> ''__values__'' \<and> ks ! i \<notin> set cls"
  with assms have "Record_getattr \<lparr>Record_keys = Some ks, Record_values = vs\<rparr> (ks ! i) = Inr (vs ! i)"
    by (simp add: Record_getattr_first)
  with h show "getattr cls \<lparr>Record_keys = Some ks, Record_values = vs\<rparr> (ks ! i)
      = Inr (Field (vs ! i))"
    by (simp add: getattr_def)
qed

theorem Record_lookup_agrees_witness:
  "Record_getitem [''__len__''] \<lparr>Record_keys = Some [''n'', ''m'', ''n''], Record_values = [10, 20, 30 :: int]\<rparr>
       (Num 1)
     = getattr [''__len__''] \<lparr>Record_keys = Some [''n'', ''m'', ''n''], Record_values = [10, 20, 30 :: int]\<rparr> ''m''
   \<and> Record_getitem [''__len__''] \<lparr>Record_keys = Some [''n'', ''m'', ''n''], Record_values = [10, 20, 30 :: int]\<rparr>
       (Str ''m'')
     = getattr [''__len__''] \<lparr>Record_keys = Some [''n'', ''m'', ''n''], Record_values = [10, 20, 30 :: int]\<rparr> ''m''
   \<and> getattr [''__len__''] \<lparr>Record_keys = Some [''n'', ''m'', ''n''], Record_values = [10, 20, 30 :: int]\<rparr> ''m''
     = Inr (Field 20)"
  using Record_lookup_agrees [of 1 "[''n'', ''m'', ''n'']" "[''__len__'']" "[10, 20, 30 :: int]"]
  by simp

section \<open>The fetch loop\<close>

lemma fetch_loop_complete: "fetch_loop E rid True res c = (Inr res, c)"
  by simp

lemma fetch_loop_pending:
  "fetch_loop E rid False res c =
     (case fetch_next c of
        (Inl e, c') \<Rightarrow> (Inl e, c')
      | (Inr (r, m), c') \<Rightarrow>
          (case callback (hydrate E) (snd r) m res of
             Inl e \<Rightarrow> (Inl e, c')
           | Inr res' \<Rightarrow>
               fetch_loop E rid (r = (rid, Pull_all_response) \<and> summary m)
                 (if fst r = rid then res' else res) c'))"
  by simp

declare fetch_loop.simps [simp del]

lemma fetch_next_frame:
  "fetch_next c = (x, c') \<Longrightarrow>
     sent c' = sent c \<and> outgoing c' = outgoing c \<and> released c' = released c
     \<and> calls c' = calls c @ [Call_fetch_next]"
  by (auto simp: fetch_next_def Let_def split: list.splits)


lemma fetch_loop_induct [consumes 0, case_names step]:
  fixes E :: "'v builtins"
  assumes "\<And>(E :: 'v builtins) rid complete res c.
      (\<And>r0 m c1 res'. \<not> complete \<Longrightarrow> fetch_next c = (Inr (r0, m), c1) \<Longrightarrow>
          callback (hydrate E) (snd r0) m res = Inr res' \<Longrightarrow>
          P E rid (r0 = (rid, Pull_all_response) \<and> summary m)
            (if fst r0 = rid then res' else res) c1)
      \<Longrightarrow> P E rid complete res c"
  shows "P E rid complete res c"
proof (induction E rid complete res c rule: fetch_loop.induct)
  case (1 E rid complete res c)
  show ?case
  proof (rule assms)
    fix r0 m c1 res'
    assume "\<not> complete" and f: "fetch_next c = (Inr (r0, m), c1)"
      and "callback (hydrate E) (snd r0) m res = Inr res'"
    then show "P E rid (r0 = (rid, Pull_all_response) \<and> summary m)
        (if fst r0 = rid then res' else res) c1"
      using "1.IH" [OF _ f [symmetric] refl refl] by simp
  qed
qed

lemma fetch_loop_cases [consumes 1, case_names Done Link_failed Raised Continue]:
  fixes E :: "'v builtins"
  assumes "fetch_loop E rid complete res c = (r, c')"
  obtains "complete" "r = Inr res" "c' = c"
  | e where "\<not> complete" "fetch_next c = (Inl e, c')" "r = Inl e"
  | r0 m e where "\<not> complete" "fetch_next c = (Inr (r0, m), c')"
      "callback (hydrate E) (snd r0) m res = Inl e" "r = Inl e"
  | r0 m c1 res' where "\<not> complete" "fetch_next c = (Inr (r0, m), c1)"
      "callback (hydrate E) (snd r0) m res = Inr res'"
      "fetch_loop E rid (r0 = (rid, Pull_all_response) \<and> summary m)
         (if fst r0 = rid then res' else res) c1 = (r, c')"
proof (cases complete)
  case True
  with assms have "r = Inr res" "c' = c" by (simp_all add: fetch_loop_complete)
  with True that(1) show ?thesis by blast
next
  case False
  obtain x c1 where f: "fetch_next c = (x, c1)" by (cases "fetch_next c")
  show ?thesis
  proof (cases x)
    case (Inl e)
    with False f assms have "r = Inl e" "c' = c1" by (simp_all add: fetch_loop_pending)
    with False f Inl that(2) show ?thesis by blast
  next
    case (Inr rm)
    obtain r0 m where rm: "rm = (r0, m)" by (cases rm)
    show ?thesis
    proof (cases "callback (hydrate E) (snd r0) m res")
      case (Inl e)
      with False f Inr rm assms have "r = Inl e" "c' = c1"
        by (simp_all add: fetch_loop_pending)
      with False f Inr rm Inl that(3) show ?thesis by blast
    next
      case cb: (Inr res')
      with False f Inr rm assms
      have "fetch_loop E rid (r0 = (rid, Pull_all_response) \<and> summary m)
              (if fst r0 = rid then res' else res) c1 = (r, c')"
        by (simp add: fetch_loop_pending)
      with False f Inr rm cb that(4) show ?thesis by blast
    qed
  qed
qed

lemma fetch_loop_frame:
  fixes E :: "'v builtins"
  shows "fetch_loop E rid complete res c = (r, c') \<Longrightarrow>
     sent c' = sent c \<and> outgoing c' = outgoing c \<and> released c' = released c
     \<and> (\<exists>k. calls c' = calls c @ replicate k Call_fetch_next)"
proof (induction E rid complete res c rule: fetch_loop_induct)
  case (step E rid complete res c)
  from step.prems show ?case
  proof (cases rule: fetch_loop_cases)
    case Done
    then show ?thesis by (auto intro: exI [of _ 0])
  next
    case (Link_failed e)
    from fetch_next_frame [OF Link_failed(2)] show ?thesis by (auto intro: exI [of _ 1])
  next
    case (Raised r0 m e)
    from fetch_next_frame [OF Raised(2)] show ?thesis by (auto intro: exI [of _ 1])
  next
    case (Continue r0 m c1 res')
    from step.IH [OF Continue] obtain k where
      "sent c' = sent c1" "outgoing c' = outgoing c1" "released c' = released c1"
      "calls c' = calls c1 @ replicate k Call_fetch_next" by blast
    with fetch_next_frame [OF Continue(2)] show ?thesis
      by (auto intro!: exI [of _ "Suc k"] simp: replicate_append_same)
  qed
qed


section \<open>Properties of the driver\<close>

text \<open>
  C6, as stated: for a URL with the scheme \<open>bolt\<close> construction succeeds, and for another
  scheme it fails with a configuration error.  It does not succeed when the port of the
  URL is not a number: for \<open>bolt://localhost:abc\<close> the scheme is \<open>bolt\<close>, reading
  \<open>parsed.port\<close> raises ValueError, and no driver is constructed.  And for the scheme \<open>x\<close>
  what is raised is the built-in ValueError; the code has no error class of its own for
  the configuration.
\<close>

theorem Driver_init_bad_port:
  "(Driver_init
      (\<lambda>u. Inr \<lparr>scheme = ''bolt'', hostname = Some ''localhost'',
                  port = Inl ''Port could not be cast to integer value''\<rparr>)
      ''bolt://localhost:abc'' () [] :: (int error + unit Driver) \<times> network)
     = (Inl (ValueError ''Port could not be cast to integer value''), [])
   \<and> (Driver_init
      (\<lambda>u. Inr \<lparr>scheme = ''x'', hostname = Some ''localhost'', port = Inr (Some 7687)\<rparr>)
      ''x://localhost:7687'' () [] :: (int error + unit Driver) \<times> network)
     = (Inl (ValueError ''x''), [])"
  by (simp add: Driver_init_def)

text \<open>
  C6, amended: for every URL whose scheme is not \<open>bolt\<close>, constructing a driver fails
  with ValueError before any network I/O occurs; for a URL with the scheme \<open>bolt\<close> whose
  port can be read, construction succeeds without network I/O and the driver holds the
  parsed host and port; for a URL with the scheme \<open>bolt\<close> whose port cannot be read, and
  for a URL that cannot be parsed at all, construction fails with ValueError, also
  before any network I/O.
\<close>

theorem Driver_init_scheme:
  "(urlparse u = Inr parsed \<and> scheme parsed \<noteq> ''bolt'' \<longrightarrow>
      (Driver_init urlparse u cfg net :: ('v error + 'c Driver) \<times> network) = (Inl (ValueError (scheme parsed)), net))
   \<and> (urlparse u = Inr parsed \<and> scheme parsed = ''bolt'' \<and> port parsed = Inr p \<longrightarrow>
      (Driver_init urlparse u cfg net :: ('v error + 'c Driver) \<times> network) = (Inr \<lparr>url = u, host = hostname parsed, driver_port = p, config = cfg\<rparr>, net))
   \<and> (urlparse u = Inr parsed \<and> scheme parsed = ''bolt'' \<and> port parsed = Inl msg \<longrightarrow>
      (Driver_init urlparse u cfg net :: ('v error + 'c Driver) \<times> network) = (Inl (ValueError msg), net))
   \<and> (urlparse u = Inl msg \<longrightarrow>
      (Driver_init urlparse u cfg net :: ('v error + 'c Driver) \<times> network) = (Inl (ValueError msg), net))
   \<and> snd (Driver_init urlparse u cfg net :: ('v error + 'c Driver) \<times> network) = net"
  by (auto simp: Driver_init_def split: sum.splits)

theorem Driver_init_scheme_witness:
  "(Driver_init (\<lambda>u. Inr \<lparr>scheme = ''x'', hostname = Some ''localhost'', port = Inr (Some 7687)\<rparr>)
      ''x://localhost:7687'' () [] :: (int error + unit Driver) \<times> network)
     = (Inl (ValueError ''x''), [])
   \<and> (Driver_init (\<lambda>u. Inr \<lparr>scheme = ''bolt'', hostname = Some ''localhost'', port = Inr (Some 7687)\<rparr>)
      ''bolt://localhost:7687'' () [] :: (int error + unit Driver) \<times> network)
     = (Inr \<lparr>url = ''bolt://localhost:7687'', host = Some ''localhost'',
              driver_port = Some 7687, config = ()\<rparr>, [])
   \<and> (Driver_init (\<lambda>u. Inr \<lparr>scheme = ''bolt'', hostname = Some ''localhost'', port = Inl ''bad port''\<rparr>)
      ''bolt://localhost:abc'' () [] :: (int error + unit Driver) \<times> network)
     = (Inl (ValueError ''bad port''), [])
   \<and> (Driver_init (\<lambda>u. Inl ''Invalid IPv6 URL'') ''bolt://[::1'' () []
        :: (int error + unit Driver) \<times> network)
     = (Inl (ValueError ''Invalid IPv6 URL''), [])"
  using
    Driver_init_scheme [where 'v = int and 'c = unit
      and urlparse = "\<lambda>u. Inr \<lparr>scheme = ''x'', hostname = Some ''localhost'', port = Inr (Some 7687)\<rparr>"
      and u = "''x://localhost:7687''" and cfg = "()" and net = "[]"
      and parsed = "\<lparr>scheme = ''x'', hostname = Some ''localhost'', port = Inr (Some 7687)\<rparr>"]
    Driver_init_scheme [where 'v = int and 'c = unit
      and urlparse = "\<lambda>u. Inr \<lparr>scheme = ''bolt'', hostname = Some ''localhost'', port = Inr (Some 7687)\<rparr>"
      and u = "''bolt://localhost:7687''" and cfg = "()" and net = "[]"
      and parsed = "\<lparr>scheme = ''bolt'', hostname = Some ''localhost'', port = Inr (Some 7687)\<rparr>"
      and p = "Some 7687"]
    Driver_init_scheme [where 'v = int and 'c = unit
      and urlparse = "\<lambda>u. Inr \<lparr>scheme = ''bolt'', hostname = Some ''localhost'', port = Inl ''bad port''\<rparr>"
      and u = "''bolt://localhost:abc''" and cfg = "()" and net = "[]"
      and parsed = "\<lparr>scheme = ''bolt'', hostname = Some ''localhost'', port = Inl ''bad port''\<rparr>"
      and msg = "''bad port''"]
    Driver_init_scheme [where 'v = int and 'c = unit
      and urlparse = "\<lambda>u. Inl ''Invalid IPv6 URL''"
      and u = "''bolt://[::1''" and cfg = "()" and net = "[]" and msg = "''Invalid IPv6 URL''"]
  by simp

section \<open>Properties of Session.run\<close>

lemma Session_run_undecoded:
  "as_text E st = None \<Longrightarrow> Session_run E s st ps = (Inl UnicodeDecodeError, s)"
  by (simp add: Session_run_def)

lemma Session_run_decoded:
  fixes E :: "'v builtins"
  assumes "as_text E st = Some t" and "Session_run E s st ps = (r, s')"
  shows "fetch_loop E (runs s) False Result_init
           (send (append (append (connection s) (RUN t (as_dict ps)) (runs s, Run_response))
                    PULL_ALL (runs s, Pull_all_response)))
         = (r, connection s')
       \<and> transaction s' = transaction s \<and> objects s' = objects s \<and> created s' = created s
       \<and> runs s' = Suc (runs s)
       \<and> bench_tests s' = (case r of Inl e \<Rightarrow> bench_tests s | Inr res \<Rightarrow> Suc (bench_tests s))"
  using assms
  by (auto simp: Session_run_def Let_def split: prod.splits sum.splits)

lemma Session_run_frame:
  "Session_run E s st ps = (r, s') \<Longrightarrow>
     transaction s' = transaction s \<and> objects s' = objects s \<and> created s' = created s"
  by (cases "as_text E st") (auto simp: Session_run_undecoded dest: Session_run_decoded)

lemma Session_run_traffic:
  fixes E :: "'v builtins"
  assumes "as_text E st = Some t" and "Session_run E s st ps = (r, s')"
  shows "sent (connection s') = sent (connection s) @ outgoing (connection s) @ [RUN t (as_dict ps), PULL_ALL]"
    and "outgoing (connection s') = []"
    and "released (connection s') = released (connection s)"
    and "\<exists>k. calls (connection s') =
            calls (connection s) @ [Call_append (RUN t (as_dict ps)), Call_append PULL_ALL, Call_send]
              @ replicate k Call_fetch_next"
proof -
  from Session_run_decoded [OF assms]
  have loop: "fetch_loop E (runs s) False Result_init
           (send (append (append (connection s) (RUN t (as_dict ps)) (runs s, Run_response))
                    PULL_ALL (runs s, Pull_all_response)))
         = (r, connection s')" by simp
  note fr = fetch_loop_frame [OF loop]
  from fr show "sent (connection s') = sent (connection s) @ outgoing (connection s) @ [RUN t (as_dict ps), PULL_ALL]"
    by (simp add: send_def append_def)
  from fr show "outgoing (connection s') = []"
    by (simp add: send_def append_def)
  from fr show "released (connection s') = released (connection s)"
    by (simp add: send_def append_def)
  from fr show "\<exists>k. calls (connection s') =
            calls (connection s) @ [Call_append (RUN t (as_dict ps)), Call_append PULL_ALL, Call_send]
              @ replicate k Call_fetch_next"
    by (simp add: send_def append_def)
qed

text \<open>
  C8: in every call of \<open>Session.run\<close> the calls on the connection are, in this order,
  the append of RUN, the append of PULL_ALL, one send, and after that nothing but
  calls of \<open>fetch_next\<close>; the send flushes the buffer with RUN and PULL_ALL at its
  end, in that order.  No response is fetched between the two appends or before the
  send.  (When the statement is a byte sequence that does not decode, the call ends
  before it reaches the connection.)
\<close>

theorem Session_run_pipelined:
  fixes E :: "'v builtins"
  shows "case as_text E st of
      None \<Rightarrow> connection (snd (Session_run E s st ps)) = connection s
    | Some t \<Rightarrow>
        (\<exists>k. calls (connection (snd (Session_run E s st ps))) =
            calls (connection s) @ [Call_append (RUN t (as_dict ps)), Call_append PULL_ALL, Call_send]
              @ replicate k Call_fetch_next)
        \<and> sent (connection (snd (Session_run E s st ps))) =
            sent (connection s) @ outgoing (connection s) @ [RUN t (as_dict ps), PULL_ALL]
        \<and> outgoing (connection (snd (Session_run E s st ps))) = []"
proof (cases "as_text E st")
  case None
  then show ?thesis by (simp add: Session_run_undecoded)
next
  case (Some t)
  obtain r s' where run: "Session_run E s st ps = (r, s')" by (cases "Session_run E s st ps")
  from Session_run_traffic [OF Some run] Some run show ?thesis by simp
qed

text \<open>
  C9: a statement given as a byte sequence is decoded as UTF-8 before it is sent, so
  running the bytes and running the text they decode to is the same call, with the
  same RUN message; a text statement is sent unchanged.
\<close>

theorem Session_run_bytes_as_text:
  fixes E :: "'v builtins"
  assumes "utf8_decode E b = Some t"
  shows "Session_run E s (Bytes b) ps = Session_run E s (Text t) ps
       \<and> sent (connection (snd (Session_run E s (Text t) ps))) =
           sent (connection s) @ outgoing (connection s) @ [RUN t (as_dict ps), PULL_ALL]"
proof -
  have same: "Session_run E s (Bytes b) ps = Session_run E s (Text t) ps"
    using assms by (simp add: Session_run_def as_text_def)
  obtain r s' where run: "Session_run E s (Text t) ps = (r, s')"
    by (cases "Session_run E s (Text t) ps")
  have "as_text E (Text t) = Some t" by (simp add: as_text_def)
  from Session_run_traffic(1) [OF this run] run same show ?thesis by simp
qed

theorem Session_run_bytes_as_text_witness:
  "Session_run plain (fresh []) (Bytes [0x52, 0x45, 0x54, 0x55, 0x52, 0x4E, 0x20, 0x31]) None
     = Session_run plain (fresh []) (Text ''RETURN 1'') None
   \<and> sent (connection (snd (Session_run plain (fresh []) (Text ''RETURN 1'') None)))
     = [RUN ''RETURN 1'' [], PULL_ALL]"
  using Session_run_bytes_as_text [of plain "[0x52, 0x45, 0x54, 0x55, 0x52, 0x4E, 0x20, 0x31]"
      "''RETURN 1''" "fresh []" None]
  by (simp add: plain_def char_of_def bit_0 fresh_def Session_init_def connect_def as_dict_def)

section \<open>Evaluation of the examples\<close>

lemmas run_eval = Session_run_def as_text_def as_dict_def append_def send_def
  fetch_loop_complete fetch_loop_pending fetch_next_def Result_init_def
  on_header_def on_record_def on_footer_def on_failure_def

lemmas example_eval = fresh_def Session_init_def connect_def plain_def header_def footer_def failure_def

lemma begun_state:
  "begun rest =
     \<lparr>connection =
        \<lparr>outgoing = [], sent = [RUN ''BEGIN'' [], PULL_ALL], responses = [], incoming = rest,
         released = False,
         calls = [Call_append (RUN ''BEGIN'' []), Call_append PULL_ALL, Call_send,
                  Call_fetch_next, Call_fetch_next]\<rparr>,
      transaction = Some 0, bench_tests = 1, runs = 1,
      objects = (\<lambda>_. Transaction_new)(0 := Transaction_new), created = 1\<rparr>"
  by (simp add: begun_def Session_new_transaction_def Transaction_init_def run_eval example_eval)

section \<open>Properties of Session.close\<close>

text \<open>
  C5, as stated: \<open>close\<close> rolls an open transaction back before it releases the
  connection.  It does not: on a session whose transaction 0 is open, \<open>close\<close> sends
  nothing at all; BEGIN and its PULL_ALL remain the only messages sent.
\<close>

theorem Session_close_open_transaction:
  "transaction (begun []) = Some 0 \<and> \<not> closed (objects (begun []) 0)
   \<and> sent (connection (Session_close (begun []))) = [RUN ''BEGIN'' [], PULL_ALL]
   \<and> outgoing (connection (Session_close (begun []))) = []"
  by (simp add: begun_state Session_close_def close_def Transaction_new_def)

text \<open>
  C5, amended: \<open>close\<close> (and \<open>__exit__\<close>, which calls it) from any state releases the
  connection and does nothing else: it sends no message, so an open transaction is
  neither committed nor rolled back, and the transaction slot and the Transaction
  objects stay as they are.
\<close>

theorem Session_close_releases:
  "released (connection (Session_close s))
   \<and> calls (connection (Session_close s)) = calls (connection s) @ [Call_close]
   \<and> sent (connection (Session_close s)) = sent (connection s)
   \<and> outgoing (connection (Session_close s)) = outgoing (connection s)
   \<and> transaction (Session_close s) = transaction s
   \<and> objects (Session_close s) = objects s
   \<and> Session_exit s = Session_close s"
  by (simp add: Session_close_def Session_exit_def close_def)

section \<open>Properties of Transaction.close\<close>









section \<open>Failures reach the caller\<close>

lemma callback_failure [simp]:
  "callback h ro (FAILURE md) res = Inl (CypherError md)"
  by (cases ro) (simp_all add: on_failure_def)




lemma fetch_next_cases [consumes 1, case_names Empty Unawaited Delivered]:
  assumes "fetch_next c = (x, c')"
  obtains "incoming c = []" "x = Inl TransportError" "incoming c' = []" "responses c' = responses c"
  | m where "incoming c = m # incoming c'" "responses c = []" "x = Inl IndexError"
  | r0 rs m where "incoming c = m # incoming c'" "responses c = r0 # rs" "x = Inr (r0, m)"
      "responses c' = (if summary m then rs else r0 # rs)"
  using assms
  by (cases "incoming c"; cases "responses c") (auto simp: fetch_next_def Let_def)



section \<open>The two phases of the fetch loop\<close>

text \<open>
  On a connection with no response pending from an earlier call, the loop first serves
  the response to RUN and then the response to PULL_ALL.  The two lemmas \<open>run_phase\<close>
  and \<open>pull_phase\<close> describe every outcome of the loop in terms of the replies.
\<close>

lemma collected_Nil [simp]: "collected h res [] = res"
  by (simp add: collected_def)

lemma collected_Cons:
  "on_record h vs res = Inr res1 \<Longrightarrow> collected h res (vs # vss) = collected h res1 vss"
  by (auto simp: collected_def on_record_def)

lemma pull_callback_cases [consumes 1, case_names Record Summary]:
  assumes "callback h Pull_all_response m res = Inr res'"
  obtains vs where "m = RECORD vs" "on_record h vs res = Inr res'"
  | "summary m" "res' = res" "concluded m res = Inr res"
  using assms by (cases m) (auto simp: on_footer_def on_failure_def)

lemma pull_callback_raised:
  assumes "callback h Pull_all_response m res = Inl e"
  shows "summary m \<and> concluded m res = Inl e"
  using assms by (cases m) (auto simp: on_footer_def on_failure_def on_record_def)

lemma pull_phase:
  fixes E :: "'v builtins"
  shows "fetch_loop E rid complete res c = (r, c') \<Longrightarrow> \<not> complete \<Longrightarrow>
     responses c = [(rid, Pull_all_response)] \<Longrightarrow>
     \<exists>vss. (incoming c = map RECORD vss \<and> incoming c' = [] \<and> r = Inl TransportError)
         \<or> (\<exists>m. incoming c = map RECORD vss @ m # incoming c' \<and> summary m
                \<and> responses c' = [] \<and> r = concluded m (collected (hydrate E) res vss))"
proof (induction E rid complete res c rule: fetch_loop_induct)
  case (step E rid complete res c)
  from step.prems(1) show ?case
  proof (cases rule: fetch_loop_cases)
    case Done
    with step.prems(2) show ?thesis by simp
  next
    case (Link_failed e)
    from Link_failed(2) show ?thesis
    proof (cases rule: fetch_next_cases)
      case Empty
      with Link_failed(3) have "incoming c = map RECORD [] \<and> incoming c' = [] \<and> r = Inl TransportError"
        by simp
      then show ?thesis by blast
    next
      case (Unawaited m)
      with step.prems(3) show ?thesis by simp
    next
      case (Delivered r0 rs m)
      then show ?thesis by simp
    qed
  next
    case (Raised r0 m e)
    from Raised(2) step.prems(3) have r0: "r0 = (rid, Pull_all_response)"
      and inc: "incoming c = m # incoming c'"
      and rsp: "responses c' = (if summary m then [] else [r0])"
      by (cases rule: fetch_next_cases; simp)+
    from Raised(3) r0 have "summary m \<and> concluded m res = Inl e"
      by (simp add: pull_callback_raised)
    with inc rsp Raised(4)
    have "incoming c = map RECORD [] @ m # incoming c' \<and> summary m \<and> responses c' = []
        \<and> r = concluded m (collected (hydrate E) res [])"
      by simp
    then show ?thesis by blast
  next
    case (Continue r0 m c1 res')
    from Continue(2) step.prems(3) have r0: "r0 = (rid, Pull_all_response)"
      and inc: "incoming c = m # incoming c1"
      and rsp: "responses c1 = (if summary m then [] else [r0])"
      by (cases rule: fetch_next_cases; simp)+
    from Continue(3) r0 have cb: "callback (hydrate E) Pull_all_response m res = Inr res'"
      by simp
    from cb show ?thesis
    proof (cases rule: pull_callback_cases)
      case (Record vs)
      with r0 rsp have nc: "\<not> (r0 = (rid, Pull_all_response) \<and> summary m)"
        and rsp1: "responses c1 = [(rid, Pull_all_response)]" by simp_all
      from Continue(4) r0 have "fetch_loop E rid (r0 = (rid, Pull_all_response) \<and> summary m)
          (if fst r0 = rid then res' else res) c1 = (r, c')" by simp
      from step.IH [OF Continue(1-3) this nc rsp1] r0
      obtain vss where alt:
        "(incoming c1 = map RECORD vss \<and> incoming c' = [] \<and> r = Inl TransportError)
         \<or> (\<exists>m'. incoming c1 = map RECORD vss @ m' # incoming c' \<and> summary m'
                \<and> responses c' = [] \<and> r = concluded m' (collected (hydrate E) res' vss))"
        by auto
      from Record inc collected_Cons [OF Record(2)] alt
      have "(incoming c = map RECORD (vs # vss) \<and> incoming c' = [] \<and> r = Inl TransportError)
         \<or> (\<exists>m'. incoming c = map RECORD (vs # vss) @ m' # incoming c' \<and> summary m'
                \<and> responses c' = [] \<and> r = concluded m' (collected (hydrate E) res (vs # vss)))"
        by auto
      then show ?thesis by blast
    next
      case Summary
      with Continue(4) r0 have "r = Inr res" "c' = c1"
        by (simp_all add: fetch_loop_complete)
      with Summary inc rsp
      have "incoming c = map RECORD [] @ m # incoming c' \<and> summary m \<and> responses c' = []
        \<and> r = concluded m (collected (hydrate E) res [])"
        by simp
      then show ?thesis by blast
    qed
  qed
qed


lemma run_callback_record [simp]:
  "callback h Run_response (RECORD vs) res = Inr res"
  by simp

lemma run_callback_raised:
  "callback h Run_response m res = Inl e \<Longrightarrow> summary m"
  by (cases m) simp_all

lemma run_phase:
  fixes E :: "'v builtins"
  shows "fetch_loop E rid complete res c = (r, c') \<Longrightarrow> \<not> complete \<Longrightarrow>
     responses c = [(rid, Run_response), (rid, Pull_all_response)] \<Longrightarrow>
     \<exists>pre. (incoming c = map RECORD pre \<and> incoming c' = [] \<and> r = Inl TransportError)
         \<or> (\<exists>m1 c1. incoming c = map RECORD pre @ m1 # incoming c1 \<and> summary m1
                \<and> responses c1 = [(rid, Pull_all_response)]
                \<and> (case callback (hydrate E) Run_response m1 res of
                      Inl e \<Rightarrow> r = Inl e \<and> c' = c1
                    | Inr res1 \<Rightarrow> fetch_loop E rid False res1 c1 = (r, c')))"
proof (induction E rid complete res c rule: fetch_loop_induct)
  case (step E rid complete res c)
  from step.prems(1) show ?case
  proof (cases rule: fetch_loop_cases)
    case Done
    with step.prems(2) show ?thesis by simp
  next
    case (Link_failed e)
    from Link_failed(2) show ?thesis
    proof (cases rule: fetch_next_cases)
      case Empty
      with Link_failed(3) have "incoming c = map RECORD [] \<and> incoming c' = [] \<and> r = Inl TransportError"
        by simp
      then show ?thesis by blast
    next
      case (Unawaited m)
      with step.prems(3) show ?thesis by simp
    next
      case (Delivered r0 rs m)
      then show ?thesis by simp
    qed
  next
    case (Raised r0 m e)
    from Raised(2) step.prems(3) have r0: "r0 = (rid, Run_response)"
      and inc: "incoming c = m # incoming c'"
      and rsp: "responses c' = (if summary m then [(rid, Pull_all_response)] else r0 # [(rid, Pull_all_response)])"
      by (cases rule: fetch_next_cases; simp)+
    from Raised(3) r0 have cb: "callback (hydrate E) Run_response m res = Inl e" by simp
    then have "summary m" by (rule run_callback_raised)
    with inc rsp cb Raised(4)
    have "incoming c = map RECORD [] @ m # incoming c' \<and> summary m
        \<and> responses c' = [(rid, Pull_all_response)]
        \<and> (case callback (hydrate E) Run_response m res of
              Inl e \<Rightarrow> r = Inl e \<and> c' = c'
            | Inr res1 \<Rightarrow> fetch_loop E rid False res1 c' = (r, c'))"
      by simp
    then show ?thesis by blast
  next
    case (Continue r0 m c1 res')
    from Continue(2) step.prems(3) have r0: "r0 = (rid, Run_response)"
      and inc: "incoming c = m # incoming c1"
      and rsp: "responses c1 = (if summary m then [(rid, Pull_all_response)] else r0 # [(rid, Pull_all_response)])"
      by (cases rule: fetch_next_cases; simp)+
    from Continue(3) r0 have cb: "callback (hydrate E) Run_response m res = Inr res'" by simp
    from Continue(4) r0 have rest: "fetch_loop E rid False res' c1 = (r, c')" by simp
    show ?thesis
    proof (cases "summary m")
      case True
      with inc rsp cb rest
      have "incoming c = map RECORD [] @ m # incoming c1 \<and> summary m
        \<and> responses c1 = [(rid, Pull_all_response)]
        \<and> (case callback (hydrate E) Run_response m res of
              Inl e \<Rightarrow> r = Inl e \<and> c' = c1
            | Inr res1 \<Rightarrow> fetch_loop E rid False res1 c1 = (r, c'))"
        by simp
      then show ?thesis by blast
    next
      case False
      then obtain vs where m: "m = RECORD vs" by (cases m) simp_all
      with cb have same: "res' = res" by simp
      from False r0 rsp have nc: "\<not> (r0 = (rid, Pull_all_response) \<and> summary m)"
        and rsp1: "responses c1 = [(rid, Run_response), (rid, Pull_all_response)]" by simp_all
      from step.IH [OF Continue(1-3) Continue(4) nc rsp1] r0 same
      obtain pre where alt:
        "(incoming c1 = map RECORD pre \<and> incoming c' = [] \<and> r = Inl TransportError)
         \<or> (\<exists>m1 c2. incoming c1 = map RECORD pre @ m1 # incoming c2 \<and> summary m1
                \<and> responses c2 = [(rid, Pull_all_response)]
                \<and> (case callback (hydrate E) Run_response m1 res of
                      Inl e \<Rightarrow> r = Inl e \<and> c' = c2
                    | Inr res1 \<Rightarrow> fetch_loop E rid False res1 c2 = (r, c')))"
        by auto
      from m inc alt
      have "(incoming c = map RECORD (vs # pre) \<and> incoming c' = [] \<and> r = Inl TransportError)
         \<or> (\<exists>m1 c2. incoming c = map RECORD (vs # pre) @ m1 # incoming c2 \<and> summary m1
                \<and> responses c2 = [(rid, Pull_all_response)]
                \<and> (case callback (hydrate E) Run_response m1 res of
                      Inl e \<Rightarrow> r = Inl e \<and> c' = c2
                    | Inr res1 \<Rightarrow> fetch_loop E rid False res1 c2 = (r, c')))"
        by auto
      then show ?thesis by blast
    qed
  qed
qed

lemma collected_init:
  "records (collected h res vss) = records res @ map (\<lambda>vs. \<lparr>Record_keys = keys (collected h res vss), Record_values = map h vs\<rparr>) vss"
  by (simp add: collected_def)

lemma concluded_returned:
  "concluded m res = Inr res' \<Longrightarrow> res' = res"
  by (cases m) simp_all








section \<open>Session.run is eager\<close>

text \<open>
  C4, as stated: the result of \<open>Session.run\<close> is a lazy stream whose records are fetched
  as the consumer advances.  It is not: when the call returns for a statement with two
  records, both are in the Result, four replies have been fetched inside the call and
  the connection has nothing left to deliver.
\<close>

theorem Session_run_materialized:
  "Session_run plain (fresh [SUCCESS header, RECORD [1], RECORD [2], SUCCESS footer])
      (Text ''UNWIND [1, 2] AS x RETURN x'') None
   = (Inr \<lparr>keys = Some [''x''],
           records = [\<lparr>Record_keys = Some [''x''], Record_values = [1]\<rparr>,
                      \<lparr>Record_keys = Some [''x''], Record_values = [2]\<rparr>]\<rparr>,
      \<lparr>connection =
         \<lparr>outgoing = [], sent = [RUN ''UNWIND [1, 2] AS x RETURN x'' [], PULL_ALL],
          responses = [], incoming = [], released = False,
          calls = [Call_append (RUN ''UNWIND [1, 2] AS x RETURN x'' []), Call_append PULL_ALL,
                   Call_send, Call_fetch_next, Call_fetch_next, Call_fetch_next, Call_fetch_next]\<rparr>,
       transaction = None, bench_tests = 1, runs = 1,
       objects = (\<lambda>_. Transaction_new), created = 0\<rparr>)"
  by (simp add: run_eval example_eval)

text \<open>
  C4, amended: \<open>Session.run\<close> returns a Result only after the response to PULL_ALL is
  complete.  On a connection without pending responses the call has then consumed the
  replies to RUN and to PULL_ALL up to and including both summaries, no response is
  pending, and the Result is the list of one Record for every RECORD received in
  answer to PULL_ALL, in order.
\<close>

theorem Session_run_eager:
  fixes E :: "'v builtins"
  assumes "responses (connection s) = []" and "Session_run E s st ps = (Inr res, s')"
  shows "responses (connection s') = []
       \<and> (\<exists>pre m1 vss m2.
            incoming (connection s) = map RECORD pre @ m1 # map RECORD vss @ m2 # incoming (connection s')
            \<and> summary m1 \<and> summary m2
            \<and> records res = map (\<lambda>vs. \<lparr>Record_keys = keys res, Record_values = map (hydrate E) vs\<rparr>) vss)"
proof -
  from assms(2) obtain t where t: "as_text E st = Some t"
    by (cases "as_text E st") (auto simp: Session_run_undecoded)
  let ?c = "send (append (append (connection s) (RUN t (as_dict ps)) (runs s, Run_response))
                    PULL_ALL (runs s, Pull_all_response))"
  from Session_run_decoded [OF t assms(2)]
  have loop: "fetch_loop E (runs s) False Result_init ?c = (Inr res, connection s')" by simp
  have rsp: "responses ?c = [(runs s, Run_response), (runs s, Pull_all_response)]"
    and inc: "incoming ?c = incoming (connection s)"
    using assms(1) by (simp_all add: send_def append_def)
  from run_phase [OF loop _ rsp] inc
  obtain pre m1 c1 where 1: "incoming (connection s) = map RECORD pre @ m1 # incoming c1"
    "summary m1" "responses c1 = [(runs s, Pull_all_response)]"
    and cb: "case callback (hydrate E) Run_response m1 Result_init of
               Inl e \<Rightarrow> Inr res = Inl e \<and> connection s' = c1
             | Inr res1 \<Rightarrow> fetch_loop E (runs s) False res1 c1 = (Inr res, connection s')"
    by auto
  from cb obtain res1 where res1: "callback (hydrate E) Run_response m1 Result_init = Inr res1"
    and loop1: "fetch_loop E (runs s) False res1 c1 = (Inr res, connection s')"
    by (cases "callback (hydrate E) Run_response m1 Result_init") auto
  from res1 have empty: "records res1 = []"
    by (cases m1) (auto simp: Result_init_def on_header_def on_failure_def split: option.splits)
  from pull_phase [OF loop1 _ 1(3)]
  obtain vss m2 where 2: "incoming c1 = map RECORD vss @ m2 # incoming (connection s')"
    "summary m2" "responses (connection s') = []"
    "Inr res = concluded m2 (collected (hydrate E) res1 vss)"
    by auto
  from 2(4) have "res = collected (hydrate E) res1 vss"
    by (simp add: concluded_returned)
  with empty collected_init [of "hydrate E" res1 vss]
  have "records res = map (\<lambda>vs. \<lparr>Record_keys = keys res, Record_values = map (hydrate E) vs\<rparr>) vss"
    by simp
  with 1 2 show ?thesis by auto
qed

theorem Session_run_eager_witness:
  "responses (connection (snd (Session_run plain
       (fresh [SUCCESS header, RECORD [1], RECORD [2], SUCCESS footer]) (Text ''RETURN x'') None))) = []
   \<and> (\<exists>pre m1 vss m2.
        [SUCCESS header, RECORD [1], RECORD [2], SUCCESS footer]
          = map RECORD pre @ m1 # map RECORD vss @ m2 # []
        \<and> summary m1 \<and> summary m2
        \<and> records (\<lparr>keys = Some [''x''],
                     records = [\<lparr>Record_keys = Some [''x''], Record_values = [1]\<rparr>,
                                \<lparr>Record_keys = Some [''x''], Record_values = [2]\<rparr>]\<rparr> :: int Result)
            = map (\<lambda>vs. \<lparr>Record_keys = Some [''x''], Record_values = map (hydrate plain) vs\<rparr>) vss)"
proof -
  let ?s = "fresh [SUCCESS header, RECORD [1], RECORD [2], SUCCESS footer]"
  let ?res = "\<lparr>keys = Some [''x''],
           records = [\<lparr>Record_keys = Some [''x''], Record_values = [1]\<rparr>,
                      \<lparr>Record_keys = Some [''x''], Record_values = [2 :: int]\<rparr>]\<rparr>"
  have idle: "responses (connection ?s) = []" by (simp add: example_eval)
  have "fst (Session_run plain ?s (Text ''RETURN x'') None) = Inr ?res"
    by (simp add: run_eval example_eval)
  then have ev: "Session_run plain ?s (Text ''RETURN x'') None
      = (Inr ?res, snd (Session_run plain ?s (Text ''RETURN x'') None))"
    by (metis prod.collapse)
  have inc: "incoming (connection ?s) = [SUCCESS header, RECORD [1], RECORD [2], SUCCESS footer]"
    by (simp add: example_eval)
  have drained: "incoming (connection (snd (Session_run plain ?s (Text ''RETURN x'') None))) = []"
    by (simp add: run_eval example_eval)
  from Session_run_eager [OF idle ev] show ?thesis
    by (simp add: inc drained)
qed

section \<open>At most one open transaction\<close>

lemma one_open_run:
  fixes E :: "'v builtins"
  assumes "one_open s" and "Session_run E s st ps = (r, s')"
  shows "one_open s'"
  using assms(1) Session_run_frame [OF assms(2)]
  by (auto simp: one_open_def split: option.splits)

lemma one_open_set_success:
  "one_open s \<Longrightarrow> one_open (set_success t b s)"
  by (auto simp: one_open_def set_success_def split: option.splits)

lemma one_open_close:
  fixes E :: "'v builtins"
  assumes "one_open s" and "t < created s"
  shows "one_open (snd (Transaction_close E t s))"
proof (cases "closed (objects s t)")
  case True
  with assms(1) show ?thesis by (simp add: Transaction_close_def)
next
  case False
  let ?stmt = "Text (if success (objects s t) then ''COMMIT'' else ''ROLLBACK'')"
  obtain r s1 where run: "Session_run E s ?stmt None = (r, s1)"
    by (cases "Session_run E s ?stmt None")
  note fr = Session_run_frame [OF run]
  from False assms have slot: "transaction s = Some t" by (auto simp: one_open_def)
  show ?thesis
  proof (cases r)
    case (Inl e)
    with False run one_open_run [OF assms(1) run] show ?thesis
      by (simp add: Transaction_close_def)
  next
    case (Inr res)
    with False run have "snd (Transaction_close E t s) =
        s1\<lparr>objects := (objects s1)(t := (objects s1 t)\<lparr>closed := True\<rparr>), transaction := None\<rparr>"
      by (simp add: Transaction_close_def)
    moreover from assms(1) slot fr
    have "one_open (s1\<lparr>objects := (objects s1)(t := (objects s1 t)\<lparr>closed := True\<rparr>),
        transaction := None\<rparr>)"
      by (auto simp: one_open_def)
    ultimately show ?thesis by simp
  qed
qed

lemma one_open_new_transaction:
  fixes E :: "'v builtins"
  assumes "one_open s"
  shows "one_open (snd (Session_new_transaction E s))"
proof (cases "transaction s")
  case (Some t)
  with assms show ?thesis by (simp add: Session_new_transaction_def)
next
  case None
  obtain r s1 where run: "Session_run E s (Text ''BEGIN'') None = (r, s1)"
    by (cases "Session_run E s (Text ''BEGIN'') None")
  note fr = Session_run_frame [OF run]
  show ?thesis
  proof (cases r)
    case (Inl e)
    with None run one_open_run [OF assms run] show ?thesis
      by (simp add: Session_new_transaction_def Transaction_init_def)
  next
    case (Inr res)
    with None run have "snd (Session_new_transaction E s) =
        s1\<lparr>objects := (objects s1)(created s1 := Transaction_new), created := Suc (created s1),
           transaction := Some (created s1)\<rparr>"
      by (simp add: Session_new_transaction_def Transaction_init_def)
    moreover from assms None fr
    have "one_open (s1\<lparr>objects := (objects s1)(created s1 := Transaction_new),
        created := Suc (created s1), transaction := Some (created s1)\<rparr>)"
      by (auto simp: one_open_def Transaction_new_def less_Suc_eq)
    ultimately show ?thesis by simp
  qed
qed

lemma one_open_perform:
  fixes E :: "'v builtins"
  assumes "one_open s" and "allocated s op"
  shows "one_open (snd (perform E op s))"
proof (cases op)
  case (Op_run st ps)
  obtain r s' where "Session_run E s st ps = (r, s')" by (cases "Session_run E s st ps")
  with Op_run one_open_run [OF assms(1) this] show ?thesis
    by (cases r) (simp_all add: returned_def)
next
  case Op_new_transaction
  with one_open_new_transaction [OF assms(1), of E] show ?thesis
    by (cases "Session_new_transaction E s"; cases "fst (Session_new_transaction E s)")
       (auto simp: returned_def)
next
  case Op_session_close
  with assms(1) show ?thesis
    by (auto simp: Session_close_def one_open_def split: option.splits)
next
  case (Op_tx_run t st ps)
  obtain r s' where run: "Session_run E s st ps = (r, s')" by (cases "Session_run E s st ps")
  with Op_tx_run assms(1) one_open_run [OF assms(1) run] show ?thesis
    by (cases r) (simp_all add: returned_def Transaction_run_def)
next
  case (Op_set_success t b)
  with assms(1) show ?thesis by (simp add: one_open_set_success)
next
  case (Op_commit t)
  with assms have "one_open (set_success t True s)" "t < created (set_success t True s)"
    by (simp_all add: one_open_set_success) (simp add: set_success_def)
  from one_open_close [OF this] Op_commit show ?thesis
    by (simp add: Transaction_commit_def)
next
  case (Op_rollback t)
  with assms have "one_open (set_success t False s)" "t < created (set_success t False s)"
    by (simp_all add: one_open_set_success) (simp add: set_success_def)
  from one_open_close [OF this] Op_rollback show ?thesis
    by (simp add: Transaction_rollback_def)
next
  case (Op_close t)
  with assms one_open_close [of s t E] show ?thesis by simp
next
  case (Op_raise e)
  with assms(1) show ?thesis by simp
qed

text \<open>
  C2: \<open>new_transaction\<close> returns a transaction only when the slot of the session is
  empty, and then the slot holds the new transaction; called while the slot is
  occupied it fails with AssertionError and leaves the session, with the transaction
  in it, as it was.  A new session has no open transaction, every operation of a
  caller keeps the property that the only transaction that is not closed is the one in
  the slot, and under that property no two distinct transactions are open.
\<close>

theorem one_transaction:
  fixes E :: "'v builtins"
  shows "(\<forall>t s'. Session_new_transaction E s = (Inr t, s') \<longrightarrow>
            transaction s = None \<and> transaction s' = Some t)
       \<and> (\<forall>t. transaction s = Some t \<longrightarrow> Session_new_transaction E s = (Inl AssertionError, s))
       \<and> one_open (Session_init c)
       \<and> (one_open s \<and> allocated s op \<longrightarrow> one_open (snd (perform E op s)))
       \<and> (one_open s \<longrightarrow>
            (\<forall>r1 < created s. \<forall>r2 < created s.
               \<not> closed (objects s r1) \<and> \<not> closed (objects s r2) \<longrightarrow> r1 = r2))"
proof (intro conjI allI impI)
  fix t s'
  assume "Session_new_transaction E s = (Inr t, s')"
  then show "transaction s = None" "transaction s' = Some t"
    by (auto simp: Session_new_transaction_def split: option.splits prod.splits sum.splits)
next
  fix t
  assume "transaction s = Some t"
  then show "Session_new_transaction E s = (Inl AssertionError, s)"
    by (simp add: Session_new_transaction_def)
next
  show "one_open (Session_init c)"
    by (simp add: one_open_def Session_init_def)
next
  assume "one_open s \<and> allocated s op"
  then show "one_open (snd (perform E op s))"
    by (simp add: one_open_perform)
next
  fix r1 r2
  assume "one_open s" "r1 < created s" "r2 < created s"
    "\<not> closed (objects s r1) \<and> \<not> closed (objects s r2)"
  then have "transaction s = Some r1" "transaction s = Some r2"
    by (auto simp: one_open_def)
  then show "r1 = r2" by simp
qed

theorem one_transaction_witness:
  "transaction (fresh [SUCCESS header, SUCCESS footer]) = None
   \<and> transaction (snd (Session_new_transaction plain (fresh [SUCCESS header, SUCCESS footer]))) = Some 0
   \<and> Session_new_transaction plain (begun []) = (Inl AssertionError, begun [])
   \<and> one_open (begun [SUCCESS header, SUCCESS footer])
   \<and> one_open (snd (perform plain (Op_close 0) (begun [SUCCESS header, SUCCESS footer])))"
proof -
  have opened: "Session_new_transaction plain (fresh [SUCCESS header, SUCCESS footer])
      = (Inr 0, begun [])"
    by (simp add: begun_def Session_new_transaction_def Transaction_init_def run_eval example_eval)
  have slot: "transaction (begun []) = Some 0" by (simp add: begun_state)
  have inv: "one_open (begun [SUCCESS header, SUCCESS footer])"
    by (simp add: begun_state one_open_def Transaction_new_def)
  have ref: "allocated (begun [SUCCESS header, SUCCESS footer]) (Op_close 0 :: int operation)"
    by (simp add: begun_state)
  from one_transaction [where s = "fresh [SUCCESS header, SUCCESS footer]" and E = plain]
    opened
  have "transaction (fresh [SUCCESS header, SUCCESS footer]) = None
      \<and> transaction (begun []) = Some 0"
    by blast
  moreover from one_transaction [where s = "begun []" and E = plain] slot
  have "Session_new_transaction plain (begun []) = (Inl AssertionError, begun [])" by blast
  moreover from one_transaction [where s = "begun [SUCCESS header, SUCCESS footer]" and E = plain
      and op = "Op_close 0"] inv ref
  have "one_open (snd (perform plain (Op_close 0) (begun [SUCCESS header, SUCCESS footer])))"
    by blast
  ultimately show ?thesis using opened inv by simp
qed

section \<open>Properties of a scoped transaction\<close>

lemma sent_during_append:
  "sent (connection s') = sent (connection s) @ new \<Longrightarrow> sent_during s s' = new"
  by (simp add: sent_during_def)

lemma run_sends:
  fixes E :: "'v builtins"
  assumes "outgoing (connection s) = []" and "Session_run E s st ps = (r, s')"
  shows "\<exists>new. sent (connection s') = sent (connection s) @ new
           \<and> (plain_statement E st \<longrightarrow> filter closing new = [])
           \<and> outgoing (connection s') = [] \<and> objects s' = objects s"
proof (cases "as_text E st")
  case None
  with assms show ?thesis by (simp add: Session_run_undecoded)
next
  case (Some x)
  from Session_run_traffic(1,2) [OF Some assms(2)] Session_run_frame [OF assms(2)] assms(1) Some
  have "sent (connection s') = sent (connection s) @ [RUN x (as_dict ps), PULL_ALL]
      \<and> (plain_statement E st \<longrightarrow> filter closing [RUN x (as_dict ps), PULL_ALL] = [])
      \<and> outgoing (connection s') = [] \<and> objects s' = objects s"
    by (simp add: plain_statement_def)
  then show ?thesis by blast
qed

lemma close_sends:
  fixes E :: "'v builtins"
  assumes "outgoing (connection s) = []" and "Transaction_close E t s = (r, s')"
    and "\<not> closed (objects s t)"
  shows "sent (connection s') = sent (connection s)
            @ [RUN (if success (objects s t) then ''COMMIT'' else ''ROLLBACK'') [], PULL_ALL]
       \<and> outgoing (connection s') = []
       \<and> success (objects s' t) = success (objects s t)
       \<and> (closed (objects s' t) \<longleftrightarrow> r = Inr ())"
proof -
  let ?x = "if success (objects s t) then ''COMMIT'' else ''ROLLBACK''"
  obtain r1 s1 where run: "Session_run E s (Text ?x) None = (r1, s1)"
    by (cases "Session_run E s (Text ?x) None")
  have decoded: "as_text E (Text ?x) = Some ?x" by (simp add: as_text_def)
  note tr = Session_run_traffic(1,2) [OF decoded run] and fr = Session_run_frame [OF run]
  show ?thesis
  proof (cases r1)
    case (Inl e)
    with assms run have "r = Inl e" "s' = s1" by (simp_all add: Transaction_close_def)
    with tr fr assms(1,3) show ?thesis by (simp add: as_dict_def)
  next
    case (Inr res)
    with assms run have "r = Inr ()"
      "s' = s1\<lparr>objects := (objects s1)(t := (objects s1 t)\<lparr>closed := True\<rparr>), transaction := None\<rparr>"
      by (simp_all add: Transaction_close_def)
    with tr fr assms(1) show ?thesis by (simp add: as_dict_def)
  qed
qed

lemma close_closed:
  "closed (objects s t) \<Longrightarrow> Transaction_close E t s = (Inl AssertionError, s)"
  by (simp add: Transaction_close_def)

text \<open>What one operation of a block does to the transaction and to the messages sent.\<close>

lemma perform_scoped:
  fixes E :: "'v builtins"
  assumes "scoped t E op" and "outgoing (connection s) = []" and "perform E op s = (r, s')"
  shows "\<exists>new. sent (connection s') = sent (connection s) @ new
          \<and> outgoing (connection s') = []
          \<and> (if closes t op \<and> \<not> closed (objects s t)
              then length (filter closing new) = 1 \<and> (closed (objects s' t) \<longleftrightarrow> r = Inr ())
              else filter closing new = [] \<and> (closed (objects s' t) \<longleftrightarrow> closed (objects s t))
                   \<and> (closes t op \<longrightarrow> r = Inl AssertionError))
          \<and> (\<not> requests_commit op \<and> \<not> success (objects s t) \<longrightarrow>
                \<not> success (objects s' t) \<and> (\<forall>q \<in> set (filter closing new). q = RUN ''ROLLBACK'' []))"
proof (cases op)
  case (Op_run st ps)
  with assms obtain r1 where run: "Session_run E s st ps = (r1, s')"
    by (cases "Session_run E s st ps") (auto simp: returned_def split: sum.splits)
  from run_sends [OF assms(2) run] assms(1) Op_run show ?thesis by (auto simp: filter_empty_conv)
next
  case Op_new_transaction
  with assms(1) show ?thesis by simp
next
  case Op_session_close
  with assms have "s' = Session_close s" by simp
  then have "sent (connection s') = sent (connection s) @ []" "outgoing (connection s') = []"
    "objects s' = objects s"
    using assms(2) by (simp_all add: Session_close_def close_def)
  with Op_session_close show ?thesis by (auto simp: filter_empty_conv)
next
  case (Op_tx_run t' st ps)
  with assms(1) have t': "t' = t" and pl: "plain_statement E st" by simp_all
  show ?thesis
  proof (cases "closed (objects s t)")
    case True
    with assms(3) Op_tx_run t' have "s' = s" by (simp add: Transaction_run_def returned_def)
    then have "sent (connection s') = sent (connection s) @ []" by simp
    with \<open>s' = s\<close> assms(2) Op_tx_run show ?thesis by (auto simp: filter_empty_conv)
  next
    case False
    with assms(3) Op_tx_run t' obtain r1 where run: "Session_run E s st ps = (r1, s')"
      by (cases "Session_run E s st ps")
         (auto simp: Transaction_run_def returned_def split: sum.splits)
    from run_sends [OF assms(2) run] pl Op_tx_run show ?thesis by (auto simp: filter_empty_conv)
  qed
next
  case (Op_set_success t' b)
  with assms have "s' = set_success t b s" by simp
  then have "sent (connection s') = sent (connection s) @ []" "outgoing (connection s') = []"
    "closed (objects s' t) = closed (objects s t)" "success (objects s' t) = b"
    using assms(2) by (simp_all add: set_success_def)
  with Op_set_success show ?thesis by (auto simp: filter_empty_conv)
next
  case (Op_commit t')
  with assms(1) have t': "t' = t" by simp
  let ?s0 = "set_success t True s"
  from assms(3) Op_commit t' have cl: "Transaction_close E t ?s0 = (r, s')"
    by (simp add: Transaction_commit_def)
  have out: "outgoing (connection ?s0) = []" and same: "sent (connection ?s0) = sent (connection s)"
    "closed (objects ?s0 t) = closed (objects s t)"
    using assms(2) by (simp_all add: set_success_def)
  show ?thesis
  proof (cases "closed (objects s t)")
    case True
    with cl same close_closed [of ?s0 t E] have "r = Inl AssertionError" "s' = ?s0" by simp_all
    with same True have "sent (connection s') = sent (connection s) @ []"
      "outgoing (connection s') = []" "closed (objects s' t)" using out by simp_all
    with Op_commit t' True \<open>r = Inl AssertionError\<close> show ?thesis by (auto simp: filter_empty_conv)
  next
    case False
    with same have "\<not> closed (objects ?s0 t)" by simp
    from close_sends [OF out cl this] same Op_commit t' False show ?thesis by (auto simp: filter_empty_conv)
  qed
next
  case (Op_rollback t')
  with assms(1) have t': "t' = t" by simp
  let ?s0 = "set_success t False s"
  from assms(3) Op_rollback t' have cl: "Transaction_close E t ?s0 = (r, s')"
    by (simp add: Transaction_rollback_def)
  have out: "outgoing (connection ?s0) = []" and same: "sent (connection ?s0) = sent (connection s)"
    "closed (objects ?s0 t) = closed (objects s t)" and flag: "\<not> success (objects ?s0 t)"
    using assms(2) by (simp_all add: set_success_def)
  show ?thesis
  proof (cases "closed (objects s t)")
    case True
    with cl same close_closed [of ?s0 t E] have "r = Inl AssertionError" "s' = ?s0" by simp_all
    with same True flag have "sent (connection s') = sent (connection s) @ []"
      "outgoing (connection s') = []" "closed (objects s' t)" "\<not> success (objects s' t)"
      using out by simp_all
    with Op_rollback t' True \<open>r = Inl AssertionError\<close> show ?thesis by (auto simp: filter_empty_conv)
  next
    case False
    with same have "\<not> closed (objects ?s0 t)" by simp
    from close_sends [OF out cl this] same flag Op_rollback t' False show ?thesis by (auto simp: filter_empty_conv)
  qed
next
  case (Op_close t')
  with assms(1) have t': "t' = t" by simp
  from assms(3) Op_close t' have cl: "Transaction_close E t s = (r, s')" by simp
  show ?thesis
  proof (cases "closed (objects s t)")
    case True
    with cl close_closed [of s t E] have "r = Inl AssertionError" "s' = s" by simp_all
    with True have "sent (connection s') = sent (connection s) @ []"
      "outgoing (connection s') = []" "closed (objects s' t)" using assms(2) by simp_all
    with Op_close t' True \<open>r = Inl AssertionError\<close> \<open>s' = s\<close> show ?thesis by (auto simp: filter_empty_conv)
  next
    case False
    from close_sends [OF assms(2) cl False] Op_close t' False show ?thesis by (auto simp: filter_empty_conv)
  qed
next
  case (Op_raise e)
  with assms have "s' = s" by simp
  then have "sent (connection s') = sent (connection s) @ []" by simp
  with \<open>s' = s\<close> assms(2) Op_raise show ?thesis by (auto simp: filter_empty_conv)
qed


lemma body_scoped:
  fixes E :: "'v builtins"
  shows "list_all (scoped t E) ops \<Longrightarrow> outgoing (connection s) = [] \<Longrightarrow> body E ops s = (r, s1) \<Longrightarrow>
     \<exists>new. sent (connection s1) = sent (connection s) @ new \<and> outgoing (connection s1) = []
       \<and> (if closed (objects s t)
           then filter closing new = [] \<and> closed (objects s1 t) \<and> \<not> interrupted E t ops s
           else if interrupted E t ops s
           then length (filter closing new) = 1 \<and> \<not> closed (objects s1 t)
           else length (filter closing new) = (if closed (objects s1 t) then 1 else 0))
       \<and> (\<not> list_ex requests_commit ops \<and> \<not> success (objects s t) \<longrightarrow>
             \<not> success (objects s1 t) \<and> (\<forall>q \<in> set (filter closing new). q = RUN ''ROLLBACK'' []))"
proof (induction ops arbitrary: s)
  case Nil
  then have "s1 = s" by simp
  then have "sent (connection s1) = sent (connection s) @ []" by simp
  with \<open>s1 = s\<close> Nil.prems(2) show ?case by auto
next
  case (Cons op ops)
  obtain r0 s0 where p: "perform E op s = (r0, s0)" by (cases "perform E op s")
  from Cons.prems(1) have sc: "scoped t E op" and rest: "list_all (scoped t E) ops" by simp_all
  from perform_scoped [OF sc Cons.prems(2) p]
  obtain new0 where n0: "sent (connection s0) = sent (connection s) @ new0"
    "outgoing (connection s0) = []"
    "if closes t op \<and> \<not> closed (objects s t)
     then length (filter closing new0) = 1 \<and> (closed (objects s0 t) \<longleftrightarrow> r0 = Inr ())
     else filter closing new0 = [] \<and> (closed (objects s0 t) \<longleftrightarrow> closed (objects s t))
          \<and> (closes t op \<longrightarrow> r0 = Inl AssertionError)"
    "\<not> requests_commit op \<and> \<not> success (objects s t) \<longrightarrow>
       \<not> success (objects s0 t) \<and> (\<forall>q \<in> set (filter closing new0). q = RUN ''ROLLBACK'' [])"
    by blast
  show ?case
  proof (cases r0)
    case (Inl e)
    with p Cons.prems(3) have stop: "s1 = s0" "r = Inl e" by simp_all
    from Inl p have int: "interrupted E t (op # ops) s = (closes t op \<and> \<not> closed (objects s t))"
      by simp
    from n0 stop Inl int
    have "sent (connection s1) = sent (connection s) @ new0 \<and> outgoing (connection s1) = []
       \<and> (if closed (objects s t)
           then filter closing new0 = [] \<and> closed (objects s1 t) \<and> \<not> interrupted E t (op # ops) s
           else if interrupted E t (op # ops) s
           then length (filter closing new0) = 1 \<and> \<not> closed (objects s1 t)
           else length (filter closing new0) = (if closed (objects s1 t) then 1 else 0))
       \<and> (\<not> list_ex requests_commit (op # ops) \<and> \<not> success (objects s t) \<longrightarrow>
             \<not> success (objects s1 t) \<and> (\<forall>q \<in> set (filter closing new0). q = RUN ''ROLLBACK'' []))"
      by (auto split: if_splits)
    then show ?thesis by blast
  next
    case (Inr u)
    with p Cons.prems(3) have b: "body E ops s0 = (r, s1)" by simp
    from Inr p have int: "interrupted E t (op # ops) s = interrupted E t ops s0" by simp
    from Cons.IH [OF rest n0(2) b]
    obtain new1 where n1: "sent (connection s1) = sent (connection s0) @ new1"
      "outgoing (connection s1) = []"
      "if closed (objects s0 t)
       then filter closing new1 = [] \<and> closed (objects s1 t) \<and> \<not> interrupted E t ops s0
       else if interrupted E t ops s0
       then length (filter closing new1) = 1 \<and> \<not> closed (objects s1 t)
       else length (filter closing new1) = (if closed (objects s1 t) then 1 else 0)"
      "\<not> list_ex requests_commit ops \<and> \<not> success (objects s0 t) \<longrightarrow>
         \<not> success (objects s1 t) \<and> (\<forall>q \<in> set (filter closing new1). q = RUN ''ROLLBACK'' [])"
      by blast
    from n0(1) n1(1) have snt: "sent (connection s1) = sent (connection s) @ (new0 @ new1)"
      by simp
    have count: "if closed (objects s t)
           then filter closing (new0 @ new1) = [] \<and> closed (objects s1 t)
                \<and> \<not> interrupted E t (op # ops) s
           else if interrupted E t (op # ops) s
           then length (filter closing (new0 @ new1)) = 1 \<and> \<not> closed (objects s1 t)
           else length (filter closing (new0 @ new1)) = (if closed (objects s1 t) then 1 else 0)"
      using n0(3) n1(3) Inr int by (auto split: if_splits)
    have kind: "\<not> list_ex requests_commit (op # ops) \<and> \<not> success (objects s t) \<longrightarrow>
             \<not> success (objects s1 t)
             \<and> (\<forall>q \<in> set (filter closing (new0 @ new1)). q = RUN ''ROLLBACK'' [])"
      using n0(4) n1(4) by auto
    from snt n1(2) count kind show ?thesis by blast
  qed
qed

text \<open>
  How many of COMMIT and ROLLBACK a block sends.  The transaction is open and not
  marked successful when the block is entered, and the block works on this transaction
  and its session.  Then one is sent, unless the block ends with the exception of a
  \<open>commit\<close>, \<open>rollback\<close> or \<open>close\<close> that it called while the transaction was open, and then
  two are sent.  Without a request for a commit what is sent is ROLLBACK.  \<open>commit()\<close>
  sets the success flag, and the transaction is closed when \<open>commit()\<close> returns.
\<close>

lemma scoped_transaction_count:
  fixes E :: "'v builtins"
  assumes "outgoing (connection s) = []" and "\<not> closed (objects s t)"
    and "\<not> success (objects s t)" and "list_all (scoped t E) ops"
  shows "length (filter closing (sent_during s (snd (with_transaction E t ops s))))
           = (if interrupted E t ops s then 2 else 1)
       \<and> (\<not> list_ex requests_commit ops \<longrightarrow>
            (\<forall>q \<in> set (filter closing (sent_during s (snd (with_transaction E t ops s)))).
               q = RUN ''ROLLBACK'' []))
       \<and> success (objects (snd (Transaction_commit E t s)) t)
       \<and> (fst (Transaction_commit E t s) = Inr () \<longrightarrow>
            closed (objects (snd (Transaction_commit E t s)) t))"
proof -
  obtain r s1 where b: "body E ops s = (r, s1)" by (cases "body E ops s")
  from body_scoped [OF assms(4) assms(1) b] assms(2,3)
  obtain new where n: "sent (connection s1) = sent (connection s) @ new"
    "outgoing (connection s1) = []"
    "if interrupted E t ops s
     then length (filter closing new) = 1 \<and> \<not> closed (objects s1 t)
     else length (filter closing new) = (if closed (objects s1 t) then 1 else 0)"
    "\<not> list_ex requests_commit ops \<longrightarrow>
       \<not> success (objects s1 t) \<and> (\<forall>q \<in> set (filter closing new). q = RUN ''ROLLBACK'' [])"
    by auto
  obtain r2 s2 where x: "Transaction_close E t s1 = (r2, s2)"
    by (cases "Transaction_close E t s1")
  with b have w: "snd (with_transaction E t ops s) = s2"
    by (cases r2) (simp_all add: with_transaction_def Transaction_exit_def)
  have block: "length (filter closing (sent_during s s2)) = (if interrupted E t ops s then 2 else 1)
       \<and> (\<not> list_ex requests_commit ops \<longrightarrow>
            (\<forall>q \<in> set (filter closing (sent_during s s2)). q = RUN ''ROLLBACK'' []))"
  proof (cases "closed (objects s1 t)")
    case True
    with x have "s2 = s1" by (simp add: close_closed)
    with n(1) have "sent_during s s2 = new" by (simp add: sent_during_append)
    with n(3,4) True show ?thesis by (auto split: if_splits)
  next
    case False
    from close_sends [OF n(2) x False] n(1)
    have "sent (connection s2) = sent (connection s)
        @ (new @ [RUN (if success (objects s1 t) then ''COMMIT'' else ''ROLLBACK'') [], PULL_ALL])"
      by simp
    then have "sent_during s s2
        = new @ [RUN (if success (objects s1 t) then ''COMMIT'' else ''ROLLBACK'') [], PULL_ALL]"
      by (rule sent_during_append)
    with n(3,4) False show ?thesis by (auto split: if_splits)
  qed
  obtain r3 s3 where c: "Transaction_close E t (set_success t True s) = (r3, s3)"
    by (cases "Transaction_close E t (set_success t True s)")
  have out: "outgoing (connection (set_success t True s)) = []"
    and opn: "\<not> closed (objects (set_success t True s) t)"
    and flag: "success (objects (set_success t True s) t)"
    using assms(1,2) by (simp_all add: set_success_def)
  from close_sends [OF out c opn] flag c
  have "success (objects (snd (Transaction_commit E t s)) t)
       \<and> (fst (Transaction_commit E t s) = Inr () \<longrightarrow>
            closed (objects (snd (Transaction_commit E t s)) t))"
    by (simp add: Transaction_commit_def)
  with block w show ?thesis by simp
qed

text \<open>
  A block that runs a statement and then raises: one ROLLBACK is sent.  A block whose
  \<open>commit()\<close> succeeds: one COMMIT is sent by \<open>commit()\<close>, and \<open>__exit__\<close> sends nothing more,
  because \<open>close\<close> is stopped by its assertion that the transaction is not closed.
\<close>

lemma scoped_transaction_raise_in_block:
  "length (filter closing
      (sent_during (begun [SUCCESS header, SUCCESS footer, SUCCESS header, SUCCESS footer])
        (snd (with_transaction plain 0
               [Op_tx_run 0 (Text ''RETURN 1'') None, Op_raise (ValueError ''stop'')]
               (begun [SUCCESS header, SUCCESS footer, SUCCESS header, SUCCESS footer]))))) = 1
   \<and> list_all (\<lambda>q. q = RUN ''ROLLBACK'' [])
      (filter closing
        (sent_during (begun [SUCCESS header, SUCCESS footer, SUCCESS header, SUCCESS footer])
          (snd (with_transaction plain 0
                 [Op_tx_run 0 (Text ''RETURN 1'') None, Op_raise (ValueError ''stop'')]
                 (begun [SUCCESS header, SUCCESS footer, SUCCESS header, SUCCESS footer])))))
   \<and> success (objects (snd (Transaction_commit plain 0
        (begun [SUCCESS header, SUCCESS footer, SUCCESS header, SUCCESS footer]))) 0)"
proof -
  let ?s = "begun [SUCCESS header, SUCCESS footer, SUCCESS header, SUCCESS footer]"
  let ?ops = "[Op_tx_run 0 (Text ''RETURN 1'') None, Op_raise (ValueError ''stop'')]"
  have out: "outgoing (connection ?s) = []" by (simp add: begun_state)
  have opn: "\<not> closed (objects ?s 0)" by (simp add: begun_state Transaction_new_def)
  have flag: "\<not> success (objects ?s 0)" by (simp add: begun_state Transaction_new_def)
  have sc: "list_all (scoped 0 plain) ?ops"
    by (simp add: plain_statement_def as_text_def)
  have int: "\<not> interrupted plain 0 ?ops ?s"
    by (simp add: begun_state Transaction_run_def returned_def Transaction_new_def run_eval
          plain_def header_def)
  have req: "\<not> list_ex requests_commit ?ops" by simp
  from scoped_transaction_count [OF out opn flag sc] int req show ?thesis
    by (simp add: list_all_iff)
qed

lemma scoped_transaction_commit_in_block:
  "fst (with_transaction plain 0 [Op_commit 0] (begun [SUCCESS header, SUCCESS footer]))
     = Inl AssertionError
   \<and> filter closing (sent_during (begun [SUCCESS header, SUCCESS footer])
        (snd (with_transaction plain 0 [Op_commit 0] (begun [SUCCESS header, SUCCESS footer]))))
     = [RUN ''COMMIT'' []]"
  by (simp add: with_transaction_def Transaction_exit_def Transaction_commit_def
        Transaction_close_def set_success_def sent_during_def begun_state Transaction_new_def
        run_eval plain_def header_def footer_def)

text \<open>
  C3: on every exit path of a \<open>with\<close> block exactly one of COMMIT and ROLLBACK is sent.
  The code sends two on this path: the block calls \<open>commit()\<close>, which sends COMMIT; the
  server answers with FAILURE, so \<open>session.run\<close> raises inside \<open>close\<close> before the
  transaction is marked closed; \<open>__exit__\<close> then calls \<open>close\<close> again, the assertion does
  not stop it, and COMMIT is sent a second time.
\<close>

theorem scoped_transaction_failed_commit:
  "filter closing (sent_during (begun [FAILURE failure, IGNORED, IGNORED, IGNORED])
        (snd (with_transaction plain 0 [Op_commit 0]
               (begun [FAILURE failure, IGNORED, IGNORED, IGNORED]))))
     = [RUN ''COMMIT'' [], RUN ''COMMIT'' []]"
  by (simp add: with_transaction_def Transaction_exit_def Transaction_commit_def
        Transaction_close_def set_success_def sent_during_def begun_state Transaction_new_def
        run_eval plain_def)

end
